theory Spec2Isabelle
  imports Main "HOL-Library.FSet"
begin

section \<open>Python values used by the analysis\<close>

text \<open>
  The sequences handled by the repository are Python lists of unbounded integers, so a
  sequence is an \<open>int list\<close> and every position, period and bound is an \<open>int\<close>.
  Reading or writing a list outside its index range raises \<open>IndexError\<close>; a negative
  index counts from the end of the list.  Both are part of the model: every function
  below returns \<open>Inl IndexError\<close> where the Python would raise.
\<close>

datatype py_error = IndexError

definition py_len :: "int list \<Rightarrow> int" where
  "py_len xs = int (length xs)"

definition py_getitem :: "int list \<Rightarrow> int \<Rightarrow> py_error + int" where
  "py_getitem xs i =
     (if 0 \<le> i \<and> i < py_len xs then Inr (xs ! nat i)
      else if i < 0 \<and> 0 \<le> py_len xs + i then Inr (xs ! nat (py_len xs + i))
      else Inl IndexError)"

definition py_setitem :: "int list \<Rightarrow> int \<Rightarrow> int \<Rightarrow> py_error + int list" where
  "py_setitem xs i v =
     (if 0 \<le> i \<and> i < py_len xs then Inr (xs[nat i := v])
      else if i < 0 \<and> 0 \<le> py_len xs + i then Inr (xs[nat (py_len xs + i) := v])
      else Inl IndexError)"

text \<open>\<open>range(a, b)\<close> is the list of the integers from \<open>a\<close> up to \<open>b - 1\<close>.\<close>

definition py_range :: "int \<Rightarrow> int \<Rightarrow> int list" where
  "py_range a b = [a..b - 1]"

section \<open>The move oracles of main.py\<close>

text \<open>
  An oracle (\<open>game_function\<close>) maps a position to the positions reachable from it.  The
  builder only iterates over what the oracle returns, so the returned collection is
  modelled by the list of its elements in iteration order.
\<close>

type_synonym move_oracle = "int \<Rightarrow> int list"

definition get_subtraction_game_function :: "int list \<Rightarrow> move_oracle" where
  "get_subtraction_game_function S x = map (\<lambda>s. x - s) (filter (\<lambda>s. x - s \<ge> 0) S)"

definition get_allbut_game_function :: "int list \<Rightarrow> move_oracle" where
  "get_allbut_game_function S x = filter (\<lambda>i. i \<notin> set S) (py_range 1 (x + 1))"

section \<open>The Grundy builder of utils.py\<close>

text \<open>The \<open>while g in reachable_values: g += 1\<close> loop that computes the mex.\<close>

function mex_loop :: "int fset \<Rightarrow> int \<Rightarrow> int" where
  "mex_loop reachable_values g =
     (if g |\<in>| reachable_values then mex_loop reachable_values (g + 1) else g)"
  by pat_completeness auto
termination
proof (relation "measure (\<lambda>(S, g). fcard (ffilter (\<lambda>x. g \<le> x) S))")
  show "wf (measure (\<lambda>(S, g). fcard (ffilter (\<lambda>x. g \<le> x) S)))"
    by simp
next
  fix reachable_values :: "int fset" and g :: int
  assume mem: "g |\<in>| reachable_values"
  have sub: "ffilter (\<lambda>x. g + 1 \<le> x) reachable_values |\<subseteq>| ffilter (\<lambda>x. g \<le> x) reachable_values"
    by auto
  have "g |\<in>| ffilter (\<lambda>x. g \<le> x) reachable_values"
    and "g |\<notin>| ffilter (\<lambda>x. g + 1 \<le> x) reachable_values"
    using mem by simp_all
  with sub
  have "ffilter (\<lambda>x. g + 1 \<le> x) reachable_values |\<subset>| ffilter (\<lambda>x. g \<le> x) reachable_values"
    by blast
  then have "fcard (ffilter (\<lambda>x. g + 1 \<le> x) reachable_values)
      < fcard (ffilter (\<lambda>x. g \<le> x) reachable_values)"
    by (rule pfsubset_fcard_mono)
  then show "((reachable_values, g + 1), (reachable_values, g))
      \<in> measure (\<lambda>(S, g). fcard (ffilter (\<lambda>x. g \<le> x) S))"
    by simp
qed

declare mex_loop.simps [simp del]

text \<open>The \<open>for next_pos in game_function(n)\<close> loop filling \<open>reachable_values\<close>.\<close>

fun collect_reachable :: "int list \<Rightarrow> int list \<Rightarrow> int fset \<Rightarrow> py_error + int fset" where
  "collect_reachable grundy [] reachable_values = Inr reachable_values"
| "collect_reachable grundy (next_pos # rest) reachable_values =
     (case py_getitem grundy next_pos of
        Inl e \<Rightarrow> Inl e
      | Inr v \<Rightarrow> collect_reachable grundy rest (finsert v reachable_values))"

text \<open>The \<open>for n in range(1, max_n + 1)\<close> loop, over the positions still to visit.\<close>

fun grundy_loop :: "move_oracle \<Rightarrow> int list \<Rightarrow> int list \<Rightarrow> py_error + int list" where
  "grundy_loop game_function [] grundy = Inr grundy"
| "grundy_loop game_function (n # ns) grundy =
     (case collect_reachable grundy (game_function n) {||} of
        Inl e \<Rightarrow> Inl e
      | Inr reachable_values \<Rightarrow>
          (case py_setitem grundy n (mex_loop reachable_values 0) of
             Inl e \<Rightarrow> Inl e
           | Inr grundy' \<Rightarrow> grundy_loop game_function ns grundy'))"

definition compute_grundy_values :: "move_oracle \<Rightarrow> int \<Rightarrow> py_error + int list" where
  "compute_grundy_values game_function max_n =
     grundy_loop game_function (py_range 1 (max_n + 1)) (replicate (nat (max_n + 1)) 0)"

section \<open>The Grundy builder of subtraction-game.py\<close>

fun sg_collect_reachable :: "int list \<Rightarrow> int \<Rightarrow> int list \<Rightarrow> int fset \<Rightarrow> py_error + int fset" where
  "sg_collect_reachable grundy n [] reachable_values = Inr reachable_values"
| "sg_collect_reachable grundy n (m # rest) reachable_values =
     (if n \<ge> m then
        (case py_getitem grundy (n - m) of
           Inl e \<Rightarrow> Inl e
         | Inr v \<Rightarrow> sg_collect_reachable grundy n rest (finsert v reachable_values))
      else sg_collect_reachable grundy n rest reachable_values)"

fun sg_grundy_loop :: "int list \<Rightarrow> int list \<Rightarrow> int list \<Rightarrow> py_error + int list" where
  "sg_grundy_loop moves [] grundy = Inr grundy"
| "sg_grundy_loop moves (n # ns) grundy =
     (case sg_collect_reachable grundy n moves {||} of
        Inl e \<Rightarrow> Inl e
      | Inr reachable_values \<Rightarrow>
          (case py_setitem grundy n (mex_loop reachable_values 0) of
             Inl e \<Rightarrow> Inl e
           | Inr grundy' \<Rightarrow> sg_grundy_loop moves ns grundy'))"

definition sg_compute_grundy_values :: "int list \<Rightarrow> int \<Rightarrow> py_error + int list" where
  "sg_compute_grundy_values moves max_n =
     sg_grundy_loop moves (py_range 1 (max_n + 1)) (replicate (nat (max_n + 1)) 0)"

section \<open>The period detectors of utils.py\<close>

text \<open>
  A detector returns \<open>(l, p)\<close> or \<open>(None, None)\<close>; the result is an option of a pair.
  The innermost loop answers whether \<open>is_periodic\<close> is still set when it ends.
\<close>

fun check_pure :: "int list \<Rightarrow> int \<Rightarrow> int list \<Rightarrow> py_error + bool" where
  "check_pure grundy p [] = Inr True"
| "check_pure grundy p (i # rest) =
     (case py_getitem grundy i of
        Inl e \<Rightarrow> Inl e
      | Inr a \<Rightarrow>
          (case py_getitem grundy (i + p) of
             Inl e \<Rightarrow> Inl e
           | Inr b \<Rightarrow> if a \<noteq> b then Inr False else check_pure grundy p rest))"

fun pure_p_loop :: "int list \<Rightarrow> int \<Rightarrow> int list \<Rightarrow> py_error + (int \<times> int) option" where
  "pure_p_loop grundy l [] = Inr None"
| "pure_p_loop grundy l (p # ps) =
     (case check_pure grundy p (py_range l (py_len grundy - p)) of
        Inl e \<Rightarrow> Inl e
      | Inr is_periodic \<Rightarrow>
          if is_periodic then Inr (Some (l, p)) else pure_p_loop grundy l ps)"

fun pure_l_loop :: "int list \<Rightarrow> int \<Rightarrow> int list \<Rightarrow> py_error + (int \<times> int) option" where
  "pure_l_loop grundy max_p [] = Inr None"
| "pure_l_loop grundy max_p (l # ls) =
     (case pure_p_loop grundy l (py_range 1 (min (max_p + 1) (py_len grundy - l))) of
        Inl e \<Rightarrow> Inl e
      | Inr (Some w) \<Rightarrow> Inr (Some w)
      | Inr None \<Rightarrow> pure_l_loop grundy max_p ls)"

definition detect_pure_period :: "int list \<Rightarrow> int option \<Rightarrow> py_error + (int \<times> int) option" where
  "detect_pure_period grundy max_p =
     (let n = py_len grundy;
          max_p = (case max_p of None \<Rightarrow> n div 2 | Some b \<Rightarrow> b)
      in pure_l_loop grundy max_p (py_range 0 n))"

fun check_arith :: "int list \<Rightarrow> int \<Rightarrow> int \<Rightarrow> int list \<Rightarrow> py_error + bool" where
  "check_arith grundy p d_candidate [] = Inr True"
| "check_arith grundy p d_candidate (i # rest) =
     (case py_getitem grundy i of
        Inl e \<Rightarrow> Inl e
      | Inr a \<Rightarrow>
          (case py_getitem grundy (i + p) of
             Inl e \<Rightarrow> Inl e
           | Inr b \<Rightarrow>
               if a + d_candidate \<noteq> b then Inr False
               else check_arith grundy p d_candidate rest))"

fun arith_p_loop :: "int list \<Rightarrow> int \<Rightarrow> int list \<Rightarrow> py_error + (int \<times> int \<times> int) option" where
  "arith_p_loop grundy l [] = Inr None"
| "arith_p_loop grundy l (p # ps) =
     (case py_getitem grundy (l + p) of
        Inl e \<Rightarrow> Inl e
      | Inr hi \<Rightarrow>
          (case py_getitem grundy l of
             Inl e \<Rightarrow> Inl e
           | Inr lo \<Rightarrow>
               (case check_arith grundy p (hi - lo) (py_range l (py_len grundy - p)) of
                  Inl e \<Rightarrow> Inl e
                | Inr is_arith_periodic \<Rightarrow>
                    if is_arith_periodic then Inr (Some (l, p, hi - lo))
                    else arith_p_loop grundy l ps)))"

fun arith_l_loop :: "int list \<Rightarrow> int \<Rightarrow> int list \<Rightarrow> py_error + (int \<times> int \<times> int) option" where
  "arith_l_loop grundy max_p [] = Inr None"
| "arith_l_loop grundy max_p (l # ls) =
     (case arith_p_loop grundy l (py_range 1 (min (max_p + 1) (py_len grundy - l))) of
        Inl e \<Rightarrow> Inl e
      | Inr (Some w) \<Rightarrow> Inr (Some w)
      | Inr None \<Rightarrow> arith_l_loop grundy max_p ls)"

text \<open>The parameter \<open>max_d\<close> is accepted and never read.\<close>

definition detect_arithmetic_period ::
  "int list \<Rightarrow> int option \<Rightarrow> int option \<Rightarrow> py_error + (int \<times> int \<times> int) option" where
  "detect_arithmetic_period grundy max_p max_d =
     (let n = py_len grundy;
          max_p = (case max_p of None \<Rightarrow> n div 2 | Some b \<Rightarrow> b)
      in arith_l_loop grundy max_p (py_range 0 n))"

section \<open>The period detectors of subtraction-game.py\<close>

fun sg_check_pure :: "int list \<Rightarrow> int \<Rightarrow> int list \<Rightarrow> py_error + bool" where
  "sg_check_pure grundy p [] = Inr True"
| "sg_check_pure grundy p (i # rest) =
     (case py_getitem grundy i of
        Inl e \<Rightarrow> Inl e
      | Inr a \<Rightarrow>
          (case py_getitem grundy (i + p) of
             Inl e \<Rightarrow> Inl e
           | Inr b \<Rightarrow> if a \<noteq> b then Inr False else sg_check_pure grundy p rest))"

fun sg_pure_p_loop :: "int list \<Rightarrow> int \<Rightarrow> int list \<Rightarrow> py_error + (int \<times> int) option" where
  "sg_pure_p_loop grundy l [] = Inr None"
| "sg_pure_p_loop grundy l (p # ps) =
     (case sg_check_pure grundy p (py_range l (py_len grundy - p)) of
        Inl e \<Rightarrow> Inl e
      | Inr is_periodic \<Rightarrow>
          if is_periodic then Inr (Some (l, p)) else sg_pure_p_loop grundy l ps)"

fun sg_pure_l_loop :: "int list \<Rightarrow> int \<Rightarrow> int list \<Rightarrow> py_error + (int \<times> int) option" where
  "sg_pure_l_loop grundy max_p [] = Inr None"
| "sg_pure_l_loop grundy max_p (l # ls) =
     (case sg_pure_p_loop grundy l (py_range 1 (min (max_p + 1) (py_len grundy - l))) of
        Inl e \<Rightarrow> Inl e
      | Inr (Some w) \<Rightarrow> Inr (Some w)
      | Inr None \<Rightarrow> sg_pure_l_loop grundy max_p ls)"

definition sg_detect_pure_period :: "int list \<Rightarrow> int option \<Rightarrow> py_error + (int \<times> int) option" where
  "sg_detect_pure_period grundy max_p =
     (let n = py_len grundy;
          max_p = (case max_p of None \<Rightarrow> n - 1 | Some b \<Rightarrow> b)
      in sg_pure_l_loop grundy max_p (py_range 0 n))"

fun sg_check_arith :: "int list \<Rightarrow> int \<Rightarrow> int \<Rightarrow> int list \<Rightarrow> py_error + bool" where
  "sg_check_arith grundy p d_candidate [] = Inr True"
| "sg_check_arith grundy p d_candidate (i # rest) =
     (case py_getitem grundy i of
        Inl e \<Rightarrow> Inl e
      | Inr a \<Rightarrow>
          (case py_getitem grundy (i + p) of
             Inl e \<Rightarrow> Inl e
           | Inr b \<Rightarrow>
               if a + d_candidate \<noteq> b then Inr False
               else sg_check_arith grundy p d_candidate rest))"

fun sg_arith_p_loop :: "int list \<Rightarrow> int \<Rightarrow> int list \<Rightarrow> py_error + (int \<times> int \<times> int) option" where
  "sg_arith_p_loop grundy l [] = Inr None"
| "sg_arith_p_loop grundy l (p # ps) =
     (case py_getitem grundy (l + p) of
        Inl e \<Rightarrow> Inl e
      | Inr hi \<Rightarrow>
          (case py_getitem grundy l of
             Inl e \<Rightarrow> Inl e
           | Inr lo \<Rightarrow>
               (case sg_check_arith grundy p (hi - lo) (py_range l (py_len grundy - p)) of
                  Inl e \<Rightarrow> Inl e
                | Inr is_arith_periodic \<Rightarrow>
                    if is_arith_periodic then Inr (Some (l, p, hi - lo))
                    else sg_arith_p_loop grundy l ps)))"

fun sg_arith_l_loop :: "int list \<Rightarrow> int \<Rightarrow> int list \<Rightarrow> py_error + (int \<times> int \<times> int) option" where
  "sg_arith_l_loop grundy max_p [] = Inr None"
| "sg_arith_l_loop grundy max_p (l # ls) =
     (case sg_arith_p_loop grundy l (py_range 1 (min (max_p + 1) (py_len grundy - l))) of
        Inl e \<Rightarrow> Inl e
      | Inr (Some w) \<Rightarrow> Inr (Some w)
      | Inr None \<Rightarrow> sg_arith_l_loop grundy max_p ls)"

definition sg_detect_arithmetic_period ::
  "int list \<Rightarrow> int option \<Rightarrow> int option \<Rightarrow> py_error + (int \<times> int \<times> int) option" where
  "sg_detect_arithmetic_period grundy max_p max_d =
     (let n = py_len grundy;
          max_p = (case max_p of None \<Rightarrow> n - 1 | Some b \<Rightarrow> b)
      in sg_arith_l_loop grundy max_p (py_range 0 n))"

section \<open>Conditions tested by the detectors\<close>

text \<open>
  The inner range of both detectors, \<open>range(1, min(max_p + 1, n - l))\<close>, and the two
  conditions that their innermost loops test over \<open>range(l, n - p)\<close>: equality of the
  terms \<open>p\<close> apart, and equality up to the saltus read off at \<open>l\<close>.
\<close>

definition candidates :: "int list \<Rightarrow> int \<Rightarrow> int \<Rightarrow> int list" where
  "candidates G max_p l = py_range 1 (min (max_p + 1) (py_len G - l))"

definition pure_holds :: "int list \<Rightarrow> int \<Rightarrow> int \<Rightarrow> bool" where
  "pure_holds G l p = (\<forall>i\<in>set (py_range l (py_len G - p)). G ! nat i = G ! nat (i + p))"

definition arith_holds :: "int list \<Rightarrow> int \<Rightarrow> int \<Rightarrow> bool" where
  "arith_holds G l p =
     (\<forall>i\<in>set (py_range l (py_len G - p)).
        G ! nat i + (G ! nat (l + p) - G ! nat l) = G ! nat (i + p))"

text \<open>The indices that Python accepts for a list: from \<open>-len\<close> up to \<open>len - 1\<close>.\<close>

definition valid_index :: "int list \<Rightarrow> int \<Rightarrow> bool" where
  "valid_index xs i \<longleftrightarrow> - py_len xs \<le> i \<and> i < py_len xs"

section \<open>Ranges and indexing\<close>

lemma py_range_empty: "b \<le> a \<Longrightarrow> py_range a b = []"
  by (simp add: py_range_def)

lemma py_range_rec: "a < b \<Longrightarrow> py_range a b = a # py_range (a + 1) b"
  by (simp add: py_range_def upto_rec1)

lemma set_py_range: "set (py_range a b) = {a..<b}"
  by (auto simp: py_range_def)

lemma sorted_py_range: "sorted_wrt (<) (py_range a b)"
  by (simp add: py_range_def)

lemma py_getitem_in_range:
  "0 \<le> i \<Longrightarrow> i < py_len xs \<Longrightarrow> py_getitem xs i = Inr (xs ! nat i)"
  by (simp add: py_getitem_def)

section \<open>Concrete runs and edge cases\<close>

text \<open>
  Claim C8.  For the subtraction game with move set \<open>[1, 2]\<close> and \<open>max_n = 10\<close> the
  builder returns \<open>[0,1,2,0,1,2,0,1,2,0,1]\<close> (through the oracle of main.py and through
  the move list of subtraction-game.py alike), and the pure detector finds pre-period 0
  and period 3 in that sequence, under the default bound of either module.
\<close>

theorem subtraction_1_2_scenario:
  "compute_grundy_values (get_subtraction_game_function [1, 2]) 10
     = Inr [0, 1, 2, 0, 1, 2, 0, 1, 2, 0, 1]
   \<and> sg_compute_grundy_values [1, 2] 10 = Inr [0, 1, 2, 0, 1, 2, 0, 1, 2, 0, 1]
   \<and> detect_pure_period [0, 1, 2, 0, 1, 2, 0, 1, 2, 0, 1] None = Inr (Some (0, 3))
   \<and> sg_detect_pure_period [0, 1, 2, 0, 1, 2, 0, 1, 2, 0, 1] None = Inr (Some (0, 3))"
  by code_simp

text \<open>
  Claim C9.  On a sequence of length 1 the pure detector reports absence, whatever bound
  is supplied or defaulted, in both modules: the only pre-period is 0 and the range of
  candidate periods \<open>range(1, min(max_p + 1, 1))\<close> is empty.
\<close>

theorem detect_pure_period_singleton:
  "length G = 1 \<Longrightarrow>
     detect_pure_period G max_p = Inr None \<and> sg_detect_pure_period G max_p = Inr None"
  by (simp add: detect_pure_period_def sg_detect_pure_period_def py_len_def Let_def
      py_range_rec [of 0 1] py_range_empty split: option.split)

theorem detect_pure_period_singleton_witness:
  "length [7::int] = 1 \<and> detect_pure_period [7] (Some 4) = Inr None
   \<and> sg_detect_pure_period [7] (Some 4) = Inr None"
  using detect_pure_period_singleton [of "[7]" "Some 4"] by simp

text \<open>
  Claim C10.  On the empty sequence both detectors report absence for every bound, and
  they do so without raising \<open>IndexError\<close>: the result is \<open>Inr None\<close>, never \<open>Inl\<close>.
  The loop over pre-periods is \<open>range(0)\<close>, so no element is ever read.
\<close>

theorem detect_period_empty:
  "detect_pure_period [] max_p = Inr None
   \<and> detect_arithmetic_period [] max_p max_d = Inr None
   \<and> sg_detect_pure_period [] max_p = Inr None
   \<and> sg_detect_arithmetic_period [] max_p max_d = Inr None"
  by (simp add: detect_pure_period_def detect_arithmetic_period_def
      sg_detect_pure_period_def sg_detect_arithmetic_period_def py_len_def py_range_empty)

section \<open>The builder on a negative bound\<close>

text \<open>
  Claim C4 says that the builder fails with an invalid-argument error when \<open>max_n < 0\<close>.
  Neither module checks \<open>max_n\<close>: \<open>[0] * (max_n + 1)\<close> is the empty list and
  \<open>range(1, max_n + 1)\<close> is empty, so the builder returns the empty sequence.
\<close>

theorem compute_grundy_values_negative_counterexample:
  "compute_grundy_values (get_subtraction_game_function [1, 2]) (- 1) = Inr []"
  by (simp add: compute_grundy_values_def py_range_empty)

text \<open>
  Claim C4, as amended: for every \<open>max_n < 0\<close> the builder of either module returns the
  empty sequence and raises nothing.
\<close>

theorem compute_grundy_values_negative:
  "max_n < 0 \<Longrightarrow>
     compute_grundy_values game_function max_n = Inr []
     \<and> sg_compute_grundy_values moves max_n = Inr []"
  by (simp add: compute_grundy_values_def sg_compute_grundy_values_def py_range_empty)

theorem compute_grundy_values_negative_witness:
  "(- 3 :: int) < 0
   \<and> compute_grundy_values (get_allbut_game_function [2, 3]) (- 3) = Inr []
   \<and> sg_compute_grundy_values [2, 3] (- 3) = Inr []"
  using compute_grundy_values_negative [of "- 3" "get_allbut_game_function [2, 3]" "[2, 3]"]
  by simp

section \<open>The pure detector returns the first pair that verifies\<close>

lemma check_pure_eq:
  "0 \<le> p \<Longrightarrow> \<forall>i\<in>set is. 0 \<le> i \<and> i + p < py_len G \<Longrightarrow>
     check_pure G p is = Inr (\<forall>i\<in>set is. G ! nat i = G ! nat (i + p))"
  by (induction "is") (auto simp: py_getitem_in_range)

lemma check_pure_range:
  "0 \<le> l \<Longrightarrow> 1 \<le> p \<Longrightarrow>
     check_pure G p (py_range l (py_len G - p)) = Inr (pure_holds G l p)"
  unfolding pure_holds_def by (rule check_pure_eq) (auto simp: set_py_range)

lemma pure_p_loop_total:
  "0 \<le> l \<Longrightarrow> \<forall>p\<in>set ps. 1 \<le> p \<Longrightarrow> \<exists>r. pure_p_loop G l ps = Inr r"
  by (induction ps) (auto simp: check_pure_range)

lemma pure_p_loop_None:
  "0 \<le> l \<Longrightarrow> \<forall>p\<in>set ps. 1 \<le> p \<Longrightarrow> pure_p_loop G l ps = Inr None \<Longrightarrow>
     \<forall>p\<in>set ps. \<not> pure_holds G l p"
  by (induction ps) (auto simp: check_pure_range split: if_splits)

lemma pure_p_loop_Some:
  "0 \<le> l \<Longrightarrow> \<forall>p\<in>set ps. 1 \<le> p \<Longrightarrow> sorted_wrt (<) ps \<Longrightarrow>
     pure_p_loop G l ps = Inr (Some (l', p)) \<Longrightarrow>
     l' = l \<and> p \<in> set ps \<and> pure_holds G l p \<and> (\<forall>q\<in>set ps. q < p \<longrightarrow> \<not> pure_holds G l q)"
proof (induction ps)
  case Nil
  then show ?case by simp
next
  case (Cons a ps)
  show ?case
  proof (cases "pure_holds G l a")
    case True
    with Cons.prems show ?thesis
      by (auto simp: check_pure_range)
  next
    case False
    with Cons.prems have "pure_p_loop G l ps = Inr (Some (l', p))"
      by (simp add: check_pure_range)
    with Cons.IH Cons.prems False show ?thesis
      by auto
  qed
qed

lemma candidates_ge1: "\<forall>p\<in>set (candidates G max_p l). 1 \<le> p"
  by (simp add: candidates_def set_py_range)

lemma sorted_candidates: "sorted_wrt (<) (candidates G max_p l)"
  by (simp add: candidates_def sorted_py_range)

lemma pure_l_loop_total:
  "\<forall>l\<in>set ls. 0 \<le> l \<Longrightarrow> \<exists>r. pure_l_loop G max_p ls = Inr r"
proof (induction ls)
  case Nil
  then show ?case by simp
next
  case (Cons l ls)
  then have "0 \<le> l" by simp
  from pure_p_loop_total [OF this candidates_ge1]
  obtain r where "pure_p_loop G l (candidates G max_p l) = Inr r" by blast
  with Cons show ?case
    by (cases r) (auto simp: candidates_def)
qed

lemma pure_l_loop_None:
  "\<forall>l\<in>set ls. 0 \<le> l \<Longrightarrow> pure_l_loop G max_p ls = Inr None \<Longrightarrow>
     \<forall>l\<in>set ls. \<forall>p\<in>set (candidates G max_p l). \<not> pure_holds G l p"
proof (induction ls)
  case Nil
  then show ?case by simp
next
  case (Cons l ls)
  then have l0: "0 \<le> l" by simp
  from Cons.prems have here: "pure_p_loop G l (candidates G max_p l) = Inr None"
    and rest: "pure_l_loop G max_p ls = Inr None"
    by (auto simp: candidates_def split: sum.splits option.splits)
  from pure_p_loop_None [OF l0 candidates_ge1 here] Cons.IH rest Cons.prems(1)
  show ?case by simp
qed

lemma pure_l_loop_Some:
  "\<forall>l\<in>set ls. 0 \<le> l \<Longrightarrow> sorted_wrt (<) ls \<Longrightarrow>
     pure_l_loop G max_p ls = Inr (Some (l, p)) \<Longrightarrow>
     l \<in> set ls \<and> p \<in> set (candidates G max_p l) \<and> pure_holds G l p
     \<and> (\<forall>q\<in>set (candidates G max_p l). q < p \<longrightarrow> \<not> pure_holds G l q)
     \<and> (\<forall>l'\<in>set ls. l' < l \<longrightarrow> (\<forall>q\<in>set (candidates G max_p l'). \<not> pure_holds G l' q))"
proof (induction ls)
  case Nil
  then show ?case by simp
next
  case (Cons a ls)
  then have a0: "0 \<le> a" by simp
  from pure_p_loop_total [OF a0 candidates_ge1]
  obtain r where r: "pure_p_loop G a (candidates G max_p a) = Inr r" by blast
  show ?case
  proof (cases r)
    case None
    with r Cons.prems have rest: "pure_l_loop G max_p ls = Inr (Some (l, p))"
      by (simp add: candidates_def)
    from pure_p_loop_None [OF a0 candidates_ge1] r None
    have no: "\<forall>q\<in>set (candidates G max_p a). \<not> pure_holds G a q" by simp
    from Cons.IH rest Cons.prems
    have IH: "l \<in> set ls \<and> p \<in> set (candidates G max_p l) \<and> pure_holds G l p
     \<and> (\<forall>q\<in>set (candidates G max_p l). q < p \<longrightarrow> \<not> pure_holds G l q)
     \<and> (\<forall>l'\<in>set ls. l' < l \<longrightarrow> (\<forall>q\<in>set (candidates G max_p l'). \<not> pure_holds G l' q))"
      by simp
    with no show ?thesis by auto
  next
    case (Some w)
    with r Cons.prems have w: "w = (l, p)"
      by (simp add: candidates_def)
    from pure_p_loop_Some [OF a0 candidates_ge1 sorted_candidates] r Some w
    have "l = a \<and> p \<in> set (candidates G max_p a) \<and> pure_holds G a p
       \<and> (\<forall>q\<in>set (candidates G max_p a). q < p \<longrightarrow> \<not> pure_holds G a q)"
      by blast
    moreover from Cons.prems(2) have "\<forall>l'\<in>set ls. a < l'" by simp
    ultimately show ?thesis by auto
  qed
qed


lemma mem_candidates:
  "p \<in> set (candidates G max_p l) \<longleftrightarrow> 1 \<le> p \<and> p \<le> min max_p (py_len G - l - 1)"
  by (auto simp: candidates_def set_py_range)

lemma pure_holds_iff:
  "pure_holds G l p \<longleftrightarrow> (\<forall>i. l \<le> i \<and> i < py_len G - p \<longrightarrow> G ! nat i = G ! nat (i + p))"
  by (auto simp: pure_holds_def set_py_range)

lemma range_nonneg: "\<forall>l\<in>set (py_range 0 n). 0 \<le> l"
  by (simp add: set_py_range)

lemma detect_pure_period_unfold:
  "detect_pure_period G (Some max_p) = pure_l_loop G max_p (py_range 0 (py_len G))"
  by (simp add: detect_pure_period_def)

lemma detect_pure_period_total: "\<exists>r. detect_pure_period G (Some max_p) = Inr r"
  unfolding detect_pure_period_unfold by (rule pure_l_loop_total [OF range_nonneg])

lemma detect_pure_period_Some:
  assumes "detect_pure_period G (Some max_p) = Inr (Some (l, p))"
  shows "0 \<le> l" and "l < py_len G" and "p \<in> set (candidates G max_p l)"
    and "pure_holds G l p"
    and "\<And>q. q \<in> set (candidates G max_p l) \<Longrightarrow> q < p \<Longrightarrow> \<not> pure_holds G l q"
    and "\<And>l' q. 0 \<le> l' \<Longrightarrow> l' < l \<Longrightarrow> q \<in> set (candidates G max_p l') \<Longrightarrow> \<not> pure_holds G l' q"
proof -
  from assms have "pure_l_loop G max_p (py_range 0 (py_len G)) = Inr (Some (l, p))"
    by (simp only: detect_pure_period_unfold)
  from pure_l_loop_Some [OF range_nonneg sorted_py_range this]
  have l: "l \<in> set (py_range 0 (py_len G))"
    and p: "p \<in> set (candidates G max_p l)"
    and h: "pure_holds G l p"
    and q: "\<forall>q\<in>set (candidates G max_p l). q < p \<longrightarrow> \<not> pure_holds G l q"
    and l': "\<forall>l'\<in>set (py_range 0 (py_len G)). l' < l \<longrightarrow>
        (\<forall>q\<in>set (candidates G max_p l'). \<not> pure_holds G l' q)"
    by blast+
  from l show "0 \<le> l" and "l < py_len G" by (simp_all add: set_py_range)
  from p show "p \<in> set (candidates G max_p l)" .
  from h show "pure_holds G l p" .
  from q show "\<And>q. q \<in> set (candidates G max_p l) \<Longrightarrow> q < p \<Longrightarrow> \<not> pure_holds G l q"
    by blast
  fix l' q
  assume "0 \<le> l'" and "l' < l" and "q \<in> set (candidates G max_p l')"
  moreover from \<open>0 \<le> l'\<close> \<open>l' < l\<close> \<open>l < py_len G\<close> have "l' \<in> set (py_range 0 (py_len G))"
    by (simp add: set_py_range)
  ultimately show "\<not> pure_holds G l' q" using l' by blast
qed

lemma detect_pure_period_None:
  assumes "detect_pure_period G (Some max_p) = Inr None"
    and "0 \<le> l" and "p \<in> set (candidates G max_p l)"
  shows "\<not> pure_holds G l p"
proof -
  from assms(3) have "l < py_len G" by (simp add: mem_candidates)
  with assms(2) have "l \<in> set (py_range 0 (py_len G))" by (simp add: set_py_range)
  moreover from assms(1) have "pure_l_loop G max_p (py_range 0 (py_len G)) = Inr None"
    by (simp only: detect_pure_period_unfold)
  from pure_l_loop_None [OF range_nonneg this]
  have "\<forall>l\<in>set (py_range 0 (py_len G)). \<forall>p\<in>set (candidates G max_p l). \<not> pure_holds G l p" .
  ultimately show ?thesis using assms(3) by blast
qed


section \<open>The arithmetic detector returns the first pair that verifies\<close>

lemma check_arith_eq:
  "0 \<le> p \<Longrightarrow> \<forall>i\<in>set is. 0 \<le> i \<and> i + p < py_len G \<Longrightarrow>
     check_arith G p d is = Inr (\<forall>i\<in>set is. G ! nat i + d = G ! nat (i + p))"
  by (induction "is") (auto simp: py_getitem_in_range)

lemma check_arith_range:
  "0 \<le> l \<Longrightarrow> 1 \<le> p \<Longrightarrow>
     check_arith G p (G ! nat (l + p) - G ! nat l) (py_range l (py_len G - p))
       = Inr (arith_holds G l p)"
  unfolding arith_holds_def by (rule check_arith_eq) (auto simp: set_py_range)

lemma arith_p_loop_Cons:
  assumes "0 \<le> l" and "1 \<le> p" and "l + p < py_len G"
  shows "arith_p_loop G l (p # ps) =
    (if arith_holds G l p then Inr (Some (l, p, G ! nat (l + p) - G ! nat l))
     else arith_p_loop G l ps)"
proof -
  from assms have "py_getitem G (l + p) = Inr (G ! nat (l + p))"
    and "py_getitem G l = Inr (G ! nat l)"
    by (simp_all add: py_getitem_in_range)
  with check_arith_range [OF assms(1,2), of G] show ?thesis by simp
qed

lemma arith_p_loop_total:
  "0 \<le> l \<Longrightarrow> \<forall>p\<in>set ps. 1 \<le> p \<and> l + p < py_len G \<Longrightarrow> \<exists>r. arith_p_loop G l ps = Inr r"
  by (induction ps) (auto simp: arith_p_loop_Cons simp del: arith_p_loop.simps(2))

lemma arith_p_loop_None:
  "0 \<le> l \<Longrightarrow> \<forall>p\<in>set ps. 1 \<le> p \<and> l + p < py_len G \<Longrightarrow> arith_p_loop G l ps = Inr None \<Longrightarrow>
     \<forall>p\<in>set ps. \<not> arith_holds G l p"
  by (induction ps) (auto simp: arith_p_loop_Cons simp del: arith_p_loop.simps(2) split: if_splits)

lemma arith_p_loop_Some:
  "0 \<le> l \<Longrightarrow> \<forall>p\<in>set ps. 1 \<le> p \<and> l + p < py_len G \<Longrightarrow> sorted_wrt (<) ps \<Longrightarrow>
     arith_p_loop G l ps = Inr (Some (l', p, d)) \<Longrightarrow>
     l' = l \<and> p \<in> set ps \<and> d = G ! nat (l + p) - G ! nat l \<and> arith_holds G l p
     \<and> (\<forall>q\<in>set ps. q < p \<longrightarrow> \<not> arith_holds G l q)"
proof (induction ps)
  case Nil
  then show ?case by simp
next
  case (Cons a ps)
  then have a: "1 \<le> a" "l + a < py_len G" by simp_all
  note step = arith_p_loop_Cons [OF Cons.prems(1) a, of ps]
  show ?case
  proof (cases "arith_holds G l a")
    case True
    with Cons.prems step show ?thesis by auto
  next
    case False
    with Cons.prems step have "arith_p_loop G l ps = Inr (Some (l', p, d))"
      by simp
    with Cons.IH Cons.prems False show ?thesis
      by auto
  qed
qed

lemma candidates_in_range: "\<forall>p\<in>set (candidates G max_p l). 1 \<le> p \<and> l + p < py_len G"
  by (auto simp: mem_candidates)

lemma arith_l_loop_total:
  "\<forall>l\<in>set ls. 0 \<le> l \<Longrightarrow> \<exists>r. arith_l_loop G max_p ls = Inr r"
proof (induction ls)
  case Nil
  then show ?case by simp
next
  case (Cons l ls)
  then have "0 \<le> l" by simp
  from arith_p_loop_total [OF this candidates_in_range]
  obtain r where "arith_p_loop G l (candidates G max_p l) = Inr r" by blast
  with Cons show ?case
    by (cases r) (auto simp: candidates_def)
qed

lemma arith_l_loop_None:
  "\<forall>l\<in>set ls. 0 \<le> l \<Longrightarrow> arith_l_loop G max_p ls = Inr None \<Longrightarrow>
     \<forall>l\<in>set ls. \<forall>p\<in>set (candidates G max_p l). \<not> arith_holds G l p"
proof (induction ls)
  case Nil
  then show ?case by simp
next
  case (Cons l ls)
  then have l0: "0 \<le> l" by simp
  from Cons.prems have here: "arith_p_loop G l (candidates G max_p l) = Inr None"
    and rest: "arith_l_loop G max_p ls = Inr None"
    by (auto simp: candidates_def split: sum.splits option.splits)
  from arith_p_loop_None [OF l0 candidates_in_range here] Cons.IH rest Cons.prems(1)
  show ?case by simp
qed

lemma arith_l_loop_Some:
  "\<forall>l\<in>set ls. 0 \<le> l \<Longrightarrow> sorted_wrt (<) ls \<Longrightarrow>
     arith_l_loop G max_p ls = Inr (Some (l, p, d)) \<Longrightarrow>
     l \<in> set ls \<and> p \<in> set (candidates G max_p l)
     \<and> d = G ! nat (l + p) - G ! nat l \<and> arith_holds G l p
     \<and> (\<forall>q\<in>set (candidates G max_p l). q < p \<longrightarrow> \<not> arith_holds G l q)
     \<and> (\<forall>l'\<in>set ls. l' < l \<longrightarrow> (\<forall>q\<in>set (candidates G max_p l'). \<not> arith_holds G l' q))"
proof (induction ls)
  case Nil
  then show ?case by simp
next
  case (Cons a ls)
  then have a0: "0 \<le> a" by simp
  from arith_p_loop_total [OF a0 candidates_in_range]
  obtain r where r: "arith_p_loop G a (candidates G max_p a) = Inr r" by blast
  show ?case
  proof (cases r)
    case None
    with r Cons.prems have rest: "arith_l_loop G max_p ls = Inr (Some (l, p, d))"
      by (simp add: candidates_def)
    from arith_p_loop_None [OF a0 candidates_in_range] r None
    have no: "\<forall>q\<in>set (candidates G max_p a). \<not> arith_holds G a q" by simp
    from Cons.IH rest Cons.prems
    have IH: "l \<in> set ls \<and> p \<in> set (candidates G max_p l)
     \<and> d = G ! nat (l + p) - G ! nat l \<and> arith_holds G l p
     \<and> (\<forall>q\<in>set (candidates G max_p l). q < p \<longrightarrow> \<not> arith_holds G l q)
     \<and> (\<forall>l'\<in>set ls. l' < l \<longrightarrow> (\<forall>q\<in>set (candidates G max_p l'). \<not> arith_holds G l' q))"
      by simp
    with no show ?thesis by auto
  next
    case (Some w)
    with r Cons.prems have w: "w = (l, p, d)"
      by (simp add: candidates_def)
    from arith_p_loop_Some [OF a0 candidates_in_range sorted_candidates] r Some w
    have "l = a \<and> p \<in> set (candidates G max_p a)
       \<and> d = G ! nat (a + p) - G ! nat a \<and> arith_holds G a p
       \<and> (\<forall>q\<in>set (candidates G max_p a). q < p \<longrightarrow> \<not> arith_holds G a q)"
      by blast
    moreover from Cons.prems(2) have "\<forall>l'\<in>set ls. a < l'" by simp
    ultimately show ?thesis by auto
  qed
qed


lemma arith_holds_iff:
  "arith_holds G l p \<longleftrightarrow>
     (\<forall>i. l \<le> i \<and> i < py_len G - p \<longrightarrow> G ! nat i + (G ! nat (l + p) - G ! nat l) = G ! nat (i + p))"
  by (auto simp: arith_holds_def set_py_range)

lemma detect_arithmetic_period_unfold:
  "detect_arithmetic_period G (Some max_p) max_d = arith_l_loop G max_p (py_range 0 (py_len G))"
  by (simp add: detect_arithmetic_period_def Let_def)

lemma detect_pure_period_default:
  "detect_pure_period G None = detect_pure_period G (Some (py_len G div 2))"
  by (simp add: detect_pure_period_def Let_def)

lemma detect_arithmetic_period_default:
  "detect_arithmetic_period G None max_d = detect_arithmetic_period G (Some (py_len G div 2)) max_d"
  by (simp add: detect_arithmetic_period_def Let_def)

lemma detect_arithmetic_period_total: "\<exists>r. detect_arithmetic_period G (Some max_p) max_d = Inr r"
  unfolding detect_arithmetic_period_unfold by (rule arith_l_loop_total [OF range_nonneg])

lemma detect_arithmetic_period_Some:
  assumes "detect_arithmetic_period G (Some max_p) max_d = Inr (Some (l, p, d))"
  shows "0 \<le> l" and "l < py_len G" and "p \<in> set (candidates G max_p l)"
    and "d = G ! nat (l + p) - G ! nat l"
    and "arith_holds G l p"
    and "\<And>q. q \<in> set (candidates G max_p l) \<Longrightarrow> q < p \<Longrightarrow> \<not> arith_holds G l q"
    and "\<And>l' q. 0 \<le> l' \<Longrightarrow> l' < l \<Longrightarrow> q \<in> set (candidates G max_p l') \<Longrightarrow> \<not> arith_holds G l' q"
proof -
  from assms have "arith_l_loop G max_p (py_range 0 (py_len G)) = Inr (Some (l, p, d))"
    by (simp only: detect_arithmetic_period_unfold)
  from arith_l_loop_Some [OF range_nonneg sorted_py_range this]
  have l: "l \<in> set (py_range 0 (py_len G))"
    and p: "p \<in> set (candidates G max_p l)"
    and d: "d = G ! nat (l + p) - G ! nat l"
    and h: "arith_holds G l p"
    and q: "\<forall>q\<in>set (candidates G max_p l). q < p \<longrightarrow> \<not> arith_holds G l q"
    and l': "\<forall>l'\<in>set (py_range 0 (py_len G)). l' < l \<longrightarrow>
        (\<forall>q\<in>set (candidates G max_p l'). \<not> arith_holds G l' q)"
    by blast+
  from l show "0 \<le> l" and "l < py_len G" by (simp_all add: set_py_range)
  from p show "p \<in> set (candidates G max_p l)" .
  from d show "d = G ! nat (l + p) - G ! nat l" .
  from h show "arith_holds G l p" .
  from q show "\<And>q. q \<in> set (candidates G max_p l) \<Longrightarrow> q < p \<Longrightarrow> \<not> arith_holds G l q"
    by blast
  fix l' q
  assume "0 \<le> l'" and "l' < l" and "q \<in> set (candidates G max_p l')"
  moreover from \<open>0 \<le> l'\<close> \<open>l' < l\<close> \<open>l < py_len G\<close> have "l' \<in> set (py_range 0 (py_len G))"
    by (simp add: set_py_range)
  ultimately show "\<not> arith_holds G l' q" using l' by blast
qed

lemma detect_arithmetic_period_None:
  assumes "detect_arithmetic_period G (Some max_p) max_d = Inr None"
    and "0 \<le> l" and "p \<in> set (candidates G max_p l)"
  shows "\<not> arith_holds G l p"
proof -
  from assms(3) have "l < py_len G" by (simp add: mem_candidates)
  with assms(2) have "l \<in> set (py_range 0 (py_len G))" by (simp add: set_py_range)
  moreover from assms(1) have "arith_l_loop G max_p (py_range 0 (py_len G)) = Inr None"
    by (simp only: detect_arithmetic_period_unfold)
  from arith_l_loop_None [OF range_nonneg this]
  have "\<forall>l\<in>set (py_range 0 (py_len G)). \<forall>p\<in>set (candidates G max_p l). \<not> arith_holds G l p" .
  ultimately show ?thesis using assms(3) by blast
qed


section \<open>The detectors of the two modules\<close>

lemma sg_check_pure_eq: "sg_check_pure G p is = check_pure G p is"
  by (induction "is") (auto split: sum.splits)

lemma sg_pure_p_loop_eq: "sg_pure_p_loop G l ps = pure_p_loop G l ps"
  by (induction ps) (auto simp: sg_check_pure_eq split: sum.splits)

lemma sg_pure_l_loop_eq: "sg_pure_l_loop G max_p ls = pure_l_loop G max_p ls"
  by (induction ls) (auto simp: sg_pure_p_loop_eq split: sum.splits option.splits)

lemma sg_check_arith_eq: "sg_check_arith G p d is = check_arith G p d is"
  by (induction "is") (auto split: sum.splits)

lemma sg_arith_p_loop_eq: "sg_arith_p_loop G l ps = arith_p_loop G l ps"
  by (induction ps) (auto simp: sg_check_arith_eq split: sum.splits)

lemma sg_arith_l_loop_eq: "sg_arith_l_loop G max_p ls = arith_l_loop G max_p ls"
  by (induction ls) (auto simp: sg_arith_p_loop_eq split: sum.splits option.splits)

lemma sg_detect_pure_period_eq:
  "sg_detect_pure_period G (Some max_p) = detect_pure_period G (Some max_p)"
  by (simp add: sg_detect_pure_period_def detect_pure_period_def sg_pure_l_loop_eq)

lemma sg_detect_arithmetic_period_eq:
  "sg_detect_arithmetic_period G (Some max_p) max_d = detect_arithmetic_period G (Some max_p) max_d"
  by (simp add: sg_detect_arithmetic_period_def detect_arithmetic_period_def sg_arith_l_loop_eq)

lemma sg_detect_pure_period_default:
  "sg_detect_pure_period G None = sg_detect_pure_period G (Some (py_len G - 1))"
  by (simp add: sg_detect_pure_period_def Let_def)

lemma sg_detect_arithmetic_period_default:
  "sg_detect_arithmetic_period G None max_d = sg_detect_arithmetic_period G (Some (py_len G - 1)) max_d"
  by (simp add: sg_detect_arithmetic_period_def Let_def)


text \<open>
  Claim C6.  With an explicit bound the detectors of subtraction-game.py return what
  those of utils.py return, on every sequence.  Without one, subtraction-game.py searches
  with the bound \<open>len(G) - 1\<close> and utils.py with \<open>len(G) // 2\<close>, and that difference
  shows: on \<open>[0, 1, 2, 0]\<close> the default of utils.py finds nothing and the default of
  subtraction-game.py finds pre-period 0 and period 3.
\<close>

theorem detectors_agree_across_modules:
  "sg_detect_pure_period G (Some max_p) = detect_pure_period G (Some max_p)
   \<and> sg_detect_arithmetic_period G (Some max_p) max_d
       = detect_arithmetic_period G (Some max_p) max_d
   \<and> sg_detect_pure_period G None = sg_detect_pure_period G (Some (int (length G) - 1))
   \<and> sg_detect_arithmetic_period G None max_d
       = sg_detect_arithmetic_period G (Some (int (length G) - 1)) max_d
   \<and> detect_pure_period G None = detect_pure_period G (Some (int (length G) div 2))
   \<and> detect_arithmetic_period G None max_d
       = detect_arithmetic_period G (Some (int (length G) div 2)) max_d
   \<and> detect_pure_period [0, 1, 2, 0] None = Inr None
   \<and> sg_detect_pure_period [0, 1, 2, 0] None = Inr (Some (0, 3))"
proof -
  have "detect_pure_period [0, 1, 2, 0] None = Inr None"
    and "sg_detect_pure_period [0, 1, 2, 0] None = Inr (Some (0, 3))"
    by code_simp+
  then show ?thesis
    unfolding py_len_def [symmetric]
    by (intro conjI sg_detect_pure_period_eq sg_detect_arithmetic_period_eq
        sg_detect_pure_period_default sg_detect_arithmetic_period_default
        detect_pure_period_default detect_arithmetic_period_default)
qed


section \<open>What a returned witness guarantees\<close>

text \<open>
  Claim C2.  When the pure detector returns \<open>(l, p)\<close> for a bound \<open>max_p\<close>, then
  \<open>0 \<le> l < len(G)\<close>, \<open>1 \<le> p \<le> min(max_p, len(G) - l - 1)\<close>, \<open>G(i) = G(i + p)\<close> for
  every \<open>i\<close> in \<open>[l, len(G) - p)\<close>, and no pair within the same bounds that comes
  earlier (smaller \<open>l\<close>, or the same \<open>l\<close> and a smaller \<open>p\<close>) satisfies that
  condition.  When no pair within the bounds satisfies it, the detector reports
  absence.  The detector always returns (it never raises), and the detector of
  subtraction-game.py returns the same result.
\<close>

theorem detect_pure_period_lex_first:
  fixes G :: "int list" and max_p :: int
  shows
  "(\<forall>l p. detect_pure_period G (Some max_p) = Inr (Some (l, p)) \<longrightarrow>
      0 \<le> l \<and> l < int (length G)
      \<and> 1 \<le> p \<and> p \<le> min max_p (int (length G) - l - 1)
      \<and> (\<forall>i. l \<le> i \<and> i < int (length G) - p \<longrightarrow> G ! nat i = G ! nat (i + p))
      \<and> (\<forall>l' p'. (l' < l \<or> (l' = l \<and> p' < p))
            \<and> 0 \<le> l' \<and> 1 \<le> p' \<and> p' \<le> min max_p (int (length G) - l' - 1) \<longrightarrow>
            \<not> (\<forall>i. l' \<le> i \<and> i < int (length G) - p' \<longrightarrow> G ! nat i = G ! nat (i + p'))))
   \<and> ((\<forall>l p. 0 \<le> l \<and> 1 \<le> p \<and> p \<le> min max_p (int (length G) - l - 1) \<longrightarrow>
          \<not> (\<forall>i. l \<le> i \<and> i < int (length G) - p \<longrightarrow> G ! nat i = G ! nat (i + p)))
       \<longrightarrow> detect_pure_period G (Some max_p) = Inr None)
   \<and> (\<exists>r. detect_pure_period G (Some max_p) = Inr r)
   \<and> sg_detect_pure_period G (Some max_p) = detect_pure_period G (Some max_p)"
proof (intro conjI allI impI)
  show "sg_detect_pure_period G (Some max_p) = detect_pure_period G (Some max_p)"
    by (rule sg_detect_pure_period_eq)
next
  show "\<exists>r. detect_pure_period G (Some max_p) = Inr r"
    by (rule detect_pure_period_total)
next
  assume none: "\<forall>l p. 0 \<le> l \<and> 1 \<le> p \<and> p \<le> min max_p (int (length G) - l - 1) \<longrightarrow>
          \<not> (\<forall>i. l \<le> i \<and> i < int (length G) - p \<longrightarrow> G ! nat i = G ! nat (i + p))"
  obtain r where r: "detect_pure_period G (Some max_p) = Inr r"
    using detect_pure_period_total by blast
  show "detect_pure_period G (Some max_p) = Inr None"
  proof (cases r)
    case None
    with r show ?thesis by simp
  next
    case (Some w)
    obtain l p where w: "w = (l, p)" by (cases w)
    from detect_pure_period_Some(1,3,4) [of G max_p l p] r Some w
    have "0 \<le> l" and "p \<in> set (candidates G max_p l)" and "pure_holds G l p"
      by simp_all
    then have "0 \<le> l \<and> 1 \<le> p \<and> p \<le> min max_p (int (length G) - l - 1)"
      and "\<forall>i. l \<le> i \<and> i < int (length G) - p \<longrightarrow> G ! nat i = G ! nat (i + p)"
      by (simp_all add: mem_candidates pure_holds_iff py_len_def)
    with none have False by blast
    then show ?thesis ..
  qed
next
  fix l p
  assume res: "detect_pure_period G (Some max_p) = Inr (Some (l, p))"
  note S = detect_pure_period_Some [OF res]
  from S(1) show "0 \<le> l" .
  from S(2) show "l < int (length G)" by (simp add: py_len_def)
  from S(3) show "1 \<le> p" and "p \<le> min max_p (int (length G) - l - 1)"
    by (simp_all add: mem_candidates py_len_def)
  {
    fix i
    assume "l \<le> i \<and> i < int (length G) - p"
    with S(4) show "G ! nat i = G ! nat (i + p)"
      by (simp add: pure_holds_iff py_len_def)
  }
  fix l' p'
  assume earlier: "(l' < l \<or> (l' = l \<and> p' < p))
      \<and> 0 \<le> l' \<and> 1 \<le> p' \<and> p' \<le> min max_p (int (length G) - l' - 1)"
  then have cand: "p' \<in> set (candidates G max_p l')"
    by (simp add: mem_candidates py_len_def)
  have "\<not> pure_holds G l' p'"
  proof (cases "l' < l")
    case True
    with earlier cand S(6) show ?thesis by blast
  next
    case False
    with earlier have "l' = l" and "p' < p" by auto
    with cand S(5) show ?thesis by blast
  qed
  then show "\<not> (\<forall>i. l' \<le> i \<and> i < int (length G) - p' \<longrightarrow> G ! nat i = G ! nat (i + p'))"
    by (simp add: pure_holds_iff py_len_def)
qed

theorem detect_pure_period_lex_first_witness:
  "detect_pure_period [0, 1, 2, 0, 1, 2, 0, 1, 2, 0, 1] (Some 5) = Inr (Some (0, 3))
   \<and> [0, 1, 2, 0, 1, 2, 0, 1, 2, 0, 1 :: int] ! nat 4
       = [0, 1, 2, 0, 1, 2, 0, 1, 2, 0, 1] ! nat (4 + 3)
   \<and> \<not> (\<forall>i. 0 \<le> i \<and> i < int (length [0, 1, 2, 0, 1, 2, 0, 1, 2, 0, 1 :: int]) - 2 \<longrightarrow>
           [0, 1, 2, 0, 1, 2, 0, 1, 2, 0, 1 :: int] ! nat i
             = [0, 1, 2, 0, 1, 2, 0, 1, 2, 0, 1] ! nat (i + 2))
   \<and> detect_pure_period [0, 1] (Some 5) = Inr None"
proof -
  let ?G = "[0, 1, 2, 0, 1, 2, 0, 1, 2, 0, 1 :: int]"
  have run: "detect_pure_period ?G (Some 5) = Inr (Some (0, 3))"
    by code_simp
  from detect_pure_period_lex_first [of ?G 5]
  have "\<forall>l p. detect_pure_period ?G (Some 5) = Inr (Some (l, p)) \<longrightarrow>
      0 \<le> l \<and> l < int (length ?G)
      \<and> 1 \<le> p \<and> p \<le> min 5 (int (length ?G) - l - 1)
      \<and> (\<forall>i. l \<le> i \<and> i < int (length ?G) - p \<longrightarrow> ?G ! nat i = ?G ! nat (i + p))
      \<and> (\<forall>l' p'. (l' < l \<or> (l' = l \<and> p' < p))
            \<and> 0 \<le> l' \<and> 1 \<le> p' \<and> p' \<le> min 5 (int (length ?G) - l' - 1) \<longrightarrow>
            \<not> (\<forall>i. l' \<le> i \<and> i < int (length ?G) - p' \<longrightarrow> ?G ! nat i = ?G ! nat (i + p')))"
    by (rule conjunct1)
  with run
  have periodic: "\<forall>i. 0 \<le> i \<and> i < int (length ?G) - 3 \<longrightarrow> ?G ! nat i = ?G ! nat (i + 3)"
    and first: "\<forall>l' p'. (l' < 0 \<or> (l' = 0 \<and> p' < 3))
            \<and> 0 \<le> l' \<and> 1 \<le> p' \<and> p' \<le> min 5 (int (length ?G) - l' - 1) \<longrightarrow>
            \<not> (\<forall>i. l' \<le> i \<and> i < int (length ?G) - p' \<longrightarrow> ?G ! nat i = ?G ! nat (i + p'))"
    by blast+
  from periodic have at4: "?G ! nat 4 = ?G ! nat (4 + 3)"
    by simp
  from first [rule_format, of 0 2]
  have not2: "\<not> (\<forall>i. 0 \<le> i \<and> i < int (length ?G) - 2 \<longrightarrow> ?G ! nat i = ?G ! nat (i + 2))"
    by simp
  have none: "\<forall>l p. 0 \<le> l \<and> 1 \<le> p \<and> p \<le> min 5 (int (length [0, 1 :: int]) - l - 1) \<longrightarrow>
          \<not> (\<forall>i. l \<le> i \<and> i < int (length [0, 1 :: int]) - p \<longrightarrow>
                [0, 1 :: int] ! nat i = [0, 1] ! nat (i + p))"
  proof (intro allI impI)
    fix l p :: int
    assume "0 \<le> l \<and> 1 \<le> p \<and> p \<le> min 5 (int (length [0, 1 :: int]) - l - 1)"
    then have "l = 0" and "p = 1" by simp_all
    then show "\<not> (\<forall>i. l \<le> i \<and> i < int (length [0, 1 :: int]) - p \<longrightarrow>
                [0, 1 :: int] ! nat i = [0, 1] ! nat (i + p))"
      by (auto intro!: exI [of _ 0])
  qed
  from detect_pure_period_lex_first [of "[0, 1]" 5] none
  have "detect_pure_period [0, 1] (Some 5) = Inr None"
    by blast
  with run at4 not2 show ?thesis by blast
qed

text \<open>
  Claim C3.  When the arithmetic detector (of either module, with any bound or the
  default one) returns \<open>(l, p, d)\<close>, then \<open>G(i) + d = G(i + p)\<close> for every \<open>i\<close> in
  \<open>[l, len(G) - p)\<close> and \<open>d = G(l + p) - G(l)\<close>; the positions read are within the
  sequence.
\<close>

theorem detect_arithmetic_period_sound:
  assumes "detect_arithmetic_period G max_p max_d = Inr (Some (l, p, d))
           \<or> sg_detect_arithmetic_period G max_p max_d = Inr (Some (l, p, d))"
  shows "0 \<le> l \<and> 1 \<le> p \<and> l + p < int (length G)
         \<and> (\<forall>i. l \<le> i \<and> i < int (length G) - p \<longrightarrow> G ! nat i + d = G ! nat (i + p))
         \<and> d = G ! nat (l + p) - G ! nat l"
proof -
  have "\<exists>b. detect_arithmetic_period G (Some b) max_d = Inr (Some (l, p, d))"
  proof (cases max_p)
    case None
    with assms
    have "detect_arithmetic_period G (Some (py_len G div 2)) max_d = Inr (Some (l, p, d))
          \<or> detect_arithmetic_period G (Some (py_len G - 1)) max_d = Inr (Some (l, p, d))"
      by (simp only: detect_arithmetic_period_default sg_detect_arithmetic_period_default
          sg_detect_arithmetic_period_eq)
    then show ?thesis by blast
  next
    case (Some b)
    with assms have "detect_arithmetic_period G (Some b) max_d = Inr (Some (l, p, d))"
      by (simp add: sg_detect_arithmetic_period_eq)
    then show ?thesis ..
  qed
  then obtain b where "detect_arithmetic_period G (Some b) max_d = Inr (Some (l, p, d))" ..
  note S = detect_arithmetic_period_Some [OF this]
  from S(1) have "0 \<le> l" .
  moreover from S(3) have "1 \<le> p" and "l + p < int (length G)"
    by (simp_all add: mem_candidates py_len_def)
  moreover from S(4,5)
  have "\<forall>i. l \<le> i \<and> i < int (length G) - p \<longrightarrow> G ! nat i + d = G ! nat (i + p)"
    by (simp add: arith_holds_iff py_len_def)
  moreover note S(4)
  ultimately show ?thesis by blast
qed


theorem detect_arithmetic_period_sound_witness:
  "detect_arithmetic_period [0, 1, 2, 3, 4] None None = Inr (Some (0, 1, 1))
   \<and> (0::int) + 1 < int (length [0, 1, 2, 3, 4 :: int])
   \<and> [0, 1, 2, 3, 4 :: int] ! nat 2 + 1 = [0, 1, 2, 3, 4] ! nat (2 + 1)
   \<and> (1::int) = [0, 1, 2, 3, 4] ! nat (0 + 1) - [0, 1, 2, 3, 4] ! nat 0"
proof -
  let ?G = "[0, 1, 2, 3, 4 :: int]"
  have run: "detect_arithmetic_period ?G None None = Inr (Some (0, 1, 1))"
    by code_simp
  then have "detect_arithmetic_period ?G None None = Inr (Some (0, 1, 1))
      \<or> sg_detect_arithmetic_period ?G None None = Inr (Some (0, 1, 1))" ..
  from detect_arithmetic_period_sound [OF this]
  have "(0::int) + 1 < int (length ?G)"
    and "\<forall>i. 0 \<le> i \<and> i < int (length ?G) - 1 \<longrightarrow> ?G ! nat i + 1 = ?G ! nat (i + 1)"
    and "(1::int) = ?G ! nat (0 + 1) - ?G ! nat 0"
    by blast+
  then have "(0::int) + 1 < int (length ?G)"
    and "?G ! nat 2 + 1 = ?G ! nat (2 + 1)"
    and "(1::int) = ?G ! nat (0 + 1) - ?G ! nat 0"
    by simp_all
  with run show ?thesis by blast
qed

section \<open>Pure witnesses and arithmetic witnesses\<close>

lemma pure_holds_arith_holds:
  assumes "0 \<le> l" and "p \<in> set (candidates G max_p l)" and "pure_holds G l p"
  shows "arith_holds G l p" and "G ! nat (l + p) - G ! nat l = 0"
proof -
  from assms(2) have "l \<in> set (py_range l (py_len G - p))"
    by (simp add: mem_candidates set_py_range)
  with assms(3) have "G ! nat l = G ! nat (l + p)"
    unfolding pure_holds_def by blast
  then show zero: "G ! nat (l + p) - G ! nat l = 0" by simp
  show "arith_holds G l p"
    unfolding arith_holds_def zero using assms(3) unfolding pure_holds_def by simp
qed

lemma pure_then_arith:
  assumes pure: "detect_pure_period G (Some b) = Inr (Some (l, p))"
  shows "\<exists>l' p' d'. detect_arithmetic_period G (Some b) max_d = Inr (Some (l', p', d'))
           \<and> (l' < l \<or> (l' = l \<and> p' \<le> p)) \<and> (l' = l \<and> p' = p \<longrightarrow> d' = 0)"
proof -
  note P = detect_pure_period_Some [OF pure]
  from P(3) have cand: "p \<in> set (candidates G b l)"
    by (simp add: mem_candidates mem_candidates)
  note A = pure_holds_arith_holds [OF P(1) P(3) P(4)]
  obtain r where r: "detect_arithmetic_period G (Some b) max_d = Inr r"
    using detect_arithmetic_period_total by blast
  show ?thesis
  proof (cases r)
    case None
    with r detect_arithmetic_period_None [OF _ P(1) cand] A(1) show ?thesis by blast
  next
    case (Some w)
    obtain l' p' d' where w: "w = (l', p', d')" by (cases w)
    with r Some have res: "detect_arithmetic_period G (Some b) max_d = Inr (Some (l', p', d'))"
      by simp
    note S = detect_arithmetic_period_Some [OF res]
    have "\<not> l < l'"
      using S(7) [OF P(1) _ cand] A(1) by blast
    moreover have "l' = l \<Longrightarrow> \<not> p < p'"
      using S(6) [of p] cand A(1) by blast
    moreover have "l' = l \<Longrightarrow> p' = p \<Longrightarrow> d' = 0"
      using S(4) A(2) by simp
    ultimately have "(l' < l \<or> (l' = l \<and> p' \<le> p)) \<and> (l' = l \<and> p' = p \<longrightarrow> d' = 0)"
      by auto
    with res show ?thesis by blast
  qed
qed

lemma pure_then_arith_utils:
  assumes "detect_pure_period G max_p = Inr (Some (l, p))"
  shows "\<exists>l' p' d'. detect_arithmetic_period G max_p max_d = Inr (Some (l', p', d'))
           \<and> (l' < l \<or> (l' = l \<and> p' \<le> p)) \<and> (l' = l \<and> p' = p \<longrightarrow> d' = 0)"
proof (cases max_p)
  case None
  with assms have "detect_pure_period G (Some (py_len G div 2)) = Inr (Some (l, p))"
    by (simp only: detect_pure_period_default)
  from pure_then_arith [OF this, of max_d] show ?thesis
    by (simp only: None detect_arithmetic_period_default)
next
  case (Some b)
  with assms have "detect_pure_period G (Some b) = Inr (Some (l, p))"
    by simp
  from pure_then_arith [OF this, of max_d] show ?thesis
    by (simp only: Some)
qed

lemma pure_then_arith_sg:
  assumes "sg_detect_pure_period G max_p = Inr (Some (l, p))"
  shows "\<exists>l' p' d'. sg_detect_arithmetic_period G max_p max_d = Inr (Some (l', p', d'))
           \<and> (l' < l \<or> (l' = l \<and> p' \<le> p)) \<and> (l' = l \<and> p' = p \<longrightarrow> d' = 0)"
proof (cases max_p)
  case None
  with assms have "detect_pure_period G (Some (py_len G - 1)) = Inr (Some (l, p))"
    by (simp only: sg_detect_pure_period_default sg_detect_pure_period_eq)
  from pure_then_arith [OF this, of max_d] show ?thesis
    by (simp only: None sg_detect_arithmetic_period_default sg_detect_arithmetic_period_eq)
next
  case (Some b)
  with assms have "detect_pure_period G (Some b) = Inr (Some (l, p))"
    by (simp only: sg_detect_pure_period_eq)
  from pure_then_arith [OF this, of max_d] show ?thesis
    by (simp only: Some sg_detect_arithmetic_period_eq)
qed


text \<open>
  Claim C5.  When the pure detector returns \<open>(l, p)\<close>, the arithmetic detector run on
  the same sequence with the same bound returns some \<open>(l', p', d')\<close> with \<open>(l', p')\<close>
  not after \<open>(l, p)\<close> in the search order, and \<open>d' = 0\<close> when the two pairs coincide.
  This holds in each module.
\<close>

theorem pure_witness_gives_arithmetic_witness:
  "(detect_pure_period G max_p = Inr (Some (l, p)) \<longrightarrow>
      (\<exists>l' p' d'. detect_arithmetic_period G max_p max_d = Inr (Some (l', p', d'))
           \<and> (l' < l \<or> (l' = l \<and> p' \<le> p)) \<and> (l' = l \<and> p' = p \<longrightarrow> d' = 0)))
   \<and> (sg_detect_pure_period G max_p = Inr (Some (l, p)) \<longrightarrow>
      (\<exists>l' p' d'. sg_detect_arithmetic_period G max_p max_d = Inr (Some (l', p', d'))
           \<and> (l' < l \<or> (l' = l \<and> p' \<le> p)) \<and> (l' = l \<and> p' = p \<longrightarrow> d' = 0)))"
proof (intro conjI impI)
  assume "detect_pure_period G max_p = Inr (Some (l, p))"
  then show "\<exists>l' p' d'. detect_arithmetic_period G max_p max_d = Inr (Some (l', p', d'))
           \<and> (l' < l \<or> (l' = l \<and> p' \<le> p)) \<and> (l' = l \<and> p' = p \<longrightarrow> d' = 0)"
    by (rule pure_then_arith_utils)
next
  assume "sg_detect_pure_period G max_p = Inr (Some (l, p))"
  then show "\<exists>l' p' d'. sg_detect_arithmetic_period G max_p max_d = Inr (Some (l', p', d'))
           \<and> (l' < l \<or> (l' = l \<and> p' \<le> p)) \<and> (l' = l \<and> p' = p \<longrightarrow> d' = 0)"
    by (rule pure_then_arith_sg)
qed

theorem pure_witness_gives_arithmetic_witness_witness:
  "detect_pure_period [5, 0, 0] (Some 2) = Inr (Some (1, 1))
   \<and> detect_arithmetic_period [5, 0, 0] (Some 2) None = Inr (Some (0, 2, - 5))
   \<and> (\<exists>l' p' d'. detect_arithmetic_period [5, 0, 0] (Some 2) None = Inr (Some (l', p', d'))
         \<and> (l' < 1 \<or> (l' = 1 \<and> p' \<le> 1)) \<and> (l' = 1 \<and> p' = 1 \<longrightarrow> d' = 0))
   \<and> sg_detect_pure_period [0, 1, 0, 1] None = Inr (Some (0, 2))
   \<and> (\<exists>l' p' d'. sg_detect_arithmetic_period [0, 1, 0, 1] None None = Inr (Some (l', p', d'))
         \<and> (l' < 0 \<or> (l' = 0 \<and> p' \<le> 2)) \<and> (l' = 0 \<and> p' = 2 \<longrightarrow> d' = 0))"
proof -
  have pure: "detect_pure_period [5, 0, 0] (Some 2) = Inr (Some (1, 1))"
    and arith: "detect_arithmetic_period [5, 0, 0] (Some 2) None = Inr (Some (0, 2, - 5))"
    and sg_pure: "sg_detect_pure_period [0, 1, 0, 1] None = Inr (Some (0, 2))"
    by code_simp+
  note T1 = pure_witness_gives_arithmetic_witness [of "[5, 0, 0]" "Some 2" 1 1 None]
  note T2 = pure_witness_gives_arithmetic_witness [of "[0, 1, 0, 1]" None 0 2 None]
  from T1 pure
  have one: "\<exists>l' p' d'. detect_arithmetic_period [5, 0, 0] (Some 2) None = Inr (Some (l', p', d'))
         \<and> (l' < 1 \<or> (l' = 1 \<and> p' \<le> 1)) \<and> (l' = 1 \<and> p' = 1 \<longrightarrow> d' = 0)"
    by blast
  from T2 sg_pure
  have two: "\<exists>l' p' d'. sg_detect_arithmetic_period [0, 1, 0, 1] None None = Inr (Some (l', p', d'))
         \<and> (l' < 0 \<or> (l' = 0 \<and> p' \<le> 2)) \<and> (l' = 0 \<and> p' = 2 \<longrightarrow> d' = 0)"
    by blast
  from pure arith one sg_pure two show ?thesis
    by (intro conjI)
qed

section \<open>The mex loop\<close>

lemma mex_loop_ge: "g \<le> mex_loop S g"
  by (induction S g rule: mex_loop.induct) (subst mex_loop.simps, auto)

lemma mex_loop_notin: "mex_loop S g |\<notin>| S"
  by (induction S g rule: mex_loop.induct) (subst mex_loop.simps, auto)

lemma mex_loop_below: "g \<le> v \<Longrightarrow> v < mex_loop S g \<Longrightarrow> v |\<in>| S"
proof (induction S g rule: mex_loop.induct)
  case (1 S g)
  show ?case
  proof (cases "g |\<in>| S")
    case True
    with "1.prems" have "v < mex_loop S (g + 1)"
      by (subst (asm) mex_loop.simps) simp
    with "1.IH" [OF True] "1.prems"(1) True show ?thesis
      by (cases "v = g") auto
  next
    case False
    with "1.prems" show ?thesis
      by (subst (asm) mex_loop.simps) simp
  qed
qed


section \<open>The builder loop\<close>

lemma py_getitem_valid: "valid_index xs i \<Longrightarrow> \<exists>v. py_getitem xs i = Inr v"
  by (auto simp: py_getitem_def valid_index_def)

lemma py_getitem_invalid: "\<not> valid_index xs i \<Longrightarrow> py_getitem xs i = Inl IndexError"
  by (auto simp: py_getitem_def valid_index_def)

lemma collect_reachable_valid:
  "\<forall>m\<in>set ps. valid_index G m \<Longrightarrow> \<exists>S. collect_reachable G ps acc = Inr S"
proof (induction ps arbitrary: acc)
  case Nil
  then show ?case by simp
next
  case (Cons m ps)
  then obtain v where "py_getitem G m = Inr v"
    using py_getitem_valid by force
  with Cons show ?case by simp
qed

lemma collect_reachable_invalid:
  "\<exists>m\<in>set ps. \<not> valid_index G m \<Longrightarrow> collect_reachable G ps acc = Inl IndexError"
proof (induction ps arbitrary: acc)
  case Nil
  then show ?case by simp
next
  case (Cons m ps)
  show ?case
  proof (cases "valid_index G m")
    case True
    then obtain v where "py_getitem G m = Inr v"
      using py_getitem_valid by blast
    with Cons True show ?thesis by simp
  next
    case False
    then show ?thesis by (simp add: py_getitem_invalid)
  qed
qed

lemma collect_reachable_nonneg:
  "\<forall>m\<in>set ps. 0 \<le> m \<and> m < py_len G \<Longrightarrow>
     collect_reachable G ps acc = Inr (acc |\<union>| fset_of_list (map (\<lambda>m. G ! nat m) ps))"
  by (induction ps arbitrary: acc) (auto simp: py_getitem_in_range)

lemma py_setitem_in_range:
  "0 \<le> n \<Longrightarrow> n < py_len G \<Longrightarrow> py_setitem G n v = Inr (G[nat n := v])"
  by (simp add: py_setitem_def)

lemma valid_index_update [simp]: "valid_index (G[i := v]) m = valid_index G m"
  by (simp add: valid_index_def py_len_def)

lemma grundy_loop_shape:
  assumes "\<forall>n\<in>set ns. 1 \<le> n \<and> n < py_len G"
    and "\<forall>n\<in>set ns. \<forall>m\<in>set (f n). valid_index G m"
  shows "\<exists>G'. grundy_loop f ns G = Inr G' \<and> length G' = length G \<and> G' ! 0 = G ! 0"
  using assms
proof (induction ns arbitrary: G)
  case Nil
  then show ?case by simp
next
  case (Cons n ns)
  from Cons.prems(2) have "\<forall>m\<in>set (f n). valid_index G m" by simp
  from collect_reachable_valid [OF this]
  obtain S where S: "collect_reachable G (f n) {||} = Inr S" by blast
  let ?G1 = "G[nat n := mex_loop S 0]"
  from Cons.prems(1) have n: "1 \<le> n" "n < py_len G" by simp_all
  then have store: "py_setitem G n (mex_loop S 0) = Inr ?G1"
    by (simp add: py_setitem_in_range)
  have "\<forall>n\<in>set ns. 1 \<le> n \<and> n < py_len ?G1"
    using Cons.prems(1) by (simp add: py_len_def)
  moreover have "\<forall>n\<in>set ns. \<forall>m\<in>set (f n). valid_index ?G1 m"
    using Cons.prems(2) by simp
  ultimately obtain G' where G': "grundy_loop f ns ?G1 = Inr G'"
    "length G' = length ?G1" "G' ! 0 = ?G1 ! 0"
    using Cons.IH by blast
  from n have "?G1 ! 0 = G ! 0" by simp
  with G' S store show ?case by simp
qed

lemma grundy_loop_raises:
  assumes "\<forall>n\<in>set ns. 1 \<le> n \<and> n < py_len G"
    and "\<exists>n\<in>set ns. \<exists>m\<in>set (f n). \<not> valid_index G m"
  shows "grundy_loop f ns G = Inl IndexError"
  using assms
proof (induction ns arbitrary: G)
  case Nil
  then show ?case by simp
next
  case (Cons n ns)
  show ?case
  proof (cases "\<forall>m\<in>set (f n). valid_index G m")
    case False
    then have "collect_reachable G (f n) {||} = Inl IndexError"
      by (intro collect_reachable_invalid) blast
    then show ?thesis by simp
  next
    case True
    from collect_reachable_valid [OF this]
    obtain S where S: "collect_reachable G (f n) {||} = Inr S" by blast
    let ?G1 = "G[nat n := mex_loop S 0]"
    from Cons.prems(1) have n: "1 \<le> n" "n < py_len G" by simp_all
    then have store: "py_setitem G n (mex_loop S 0) = Inr ?G1"
      by (simp add: py_setitem_in_range)
    have "\<forall>n\<in>set ns. 1 \<le> n \<and> n < py_len ?G1"
      using Cons.prems(1) by (simp add: py_len_def)
    moreover have "\<exists>n\<in>set ns. \<exists>m\<in>set (f n). \<not> valid_index ?G1 m"
      using Cons.prems(2) True by auto
    ultimately have "grundy_loop f ns ?G1 = Inl IndexError"
      by (rule Cons.IH)
    with S store show ?thesis by simp
  qed
qed

lemma grundy_loop_mex:
  assumes "ns = py_range k N" and "1 \<le> k" and "py_len G = N"
    and "\<forall>n. k \<le> n \<and> n < N \<longrightarrow> (\<forall>m\<in>set (f n). 0 \<le> m \<and> m < n)"
  shows "\<exists>G'. grundy_loop f ns G = Inr G' \<and> length G' = length G
           \<and> (\<forall>j. 0 \<le> j \<and> j < k \<longrightarrow> G' ! nat j = G ! nat j)
           \<and> (\<forall>n. k \<le> n \<and> n < N \<longrightarrow>
                 G' ! nat n = mex_loop (fset_of_list (map (\<lambda>m. G' ! nat m) (f n))) 0)"
  using assms
proof (induction ns arbitrary: k G)
  case Nil
  then have "N \<le> k"
    by (cases "k < N") (simp_all add: py_range_rec)
  then show ?case by simp
next
  case (Cons a ns)
  from Cons.prems(1) have kN: "k < N"
    by (cases "k < N") (simp_all add: py_range_empty)
  with Cons.prems(1) have a: "a = k" and ns: "ns = py_range (k + 1) N"
    by (simp_all add: py_range_rec)
  from Cons.prems(4) kN have moves: "\<forall>m\<in>set (f k). 0 \<le> m \<and> m < k" by blast
  with kN Cons.prems(3) have "\<forall>m\<in>set (f k). 0 \<le> m \<and> m < py_len G" by auto
  from collect_reachable_nonneg [OF this, of "{||}"]
  have S: "collect_reachable G (f k) {||} = Inr (fset_of_list (map (\<lambda>m. G ! nat m) (f k)))"
    by simp
  define g where "g = mex_loop (fset_of_list (map (\<lambda>m. G ! nat m) (f k))) 0"
  let ?G1 = "G[nat k := g]"
  from Cons.prems(2,3) kN have store: "py_setitem G k g = Inr ?G1"
    by (simp add: py_setitem_in_range)
  have "\<exists>G'. grundy_loop f ns ?G1 = Inr G' \<and> length G' = length ?G1
           \<and> (\<forall>j. 0 \<le> j \<and> j < k + 1 \<longrightarrow> G' ! nat j = ?G1 ! nat j)
           \<and> (\<forall>n. k + 1 \<le> n \<and> n < N \<longrightarrow>
                 G' ! nat n = mex_loop (fset_of_list (map (\<lambda>m. G' ! nat m) (f n))) 0)"
  proof (rule Cons.IH [OF ns])
    show "1 \<le> k + 1" using Cons.prems(2) by simp
    show "py_len ?G1 = N" using Cons.prems(3) by (simp add: py_len_def)
    show "\<forall>n. k + 1 \<le> n \<and> n < N \<longrightarrow> (\<forall>m\<in>set (f n). 0 \<le> m \<and> m < n)"
    proof (intro allI impI)
      fix n assume "k + 1 \<le> n \<and> n < N"
      then have "k \<le> n \<and> n < N" by simp
      with Cons.prems(4) show "\<forall>m\<in>set (f n). 0 \<le> m \<and> m < n" by blast
    qed
  qed
  then obtain G' where run: "grundy_loop f ns ?G1 = Inr G'"
    and len: "length G' = length ?G1"
    and keep: "\<forall>j. 0 \<le> j \<and> j < k + 1 \<longrightarrow> G' ! nat j = ?G1 ! nat j"
    and later: "\<forall>n. k + 1 \<le> n \<and> n < N \<longrightarrow>
                 G' ! nat n = mex_loop (fset_of_list (map (\<lambda>m. G' ! nat m) (f n))) 0"
    by blast
  from run S store have res: "grundy_loop f (a # ns) G = Inr G'"
    by (simp add: a g_def)
  have before: "\<forall>j. 0 \<le> j \<and> j < k \<longrightarrow> G' ! nat j = G ! nat j"
  proof (intro allI impI)
    fix j assume j: "0 \<le> j \<and> j < k"
    with keep have "G' ! nat j = ?G1 ! nat j" by simp
    also have "\<dots> = G ! nat j"
    proof -
      from j have "nat k \<noteq> nat j" by linarith
      then show ?thesis by simp
    qed
    finally show "G' ! nat j = G ! nat j" .
  qed
  have at_k: "G' ! nat k = g"
  proof -
    from keep Cons.prems(2) have "G' ! nat k = ?G1 ! nat k" by simp
    also from kN Cons.prems(2,3) have "\<dots> = g" by (simp add: py_len_def)
    finally show ?thesis .
  qed
  have same: "map (\<lambda>m. G' ! nat m) (f k) = map (\<lambda>m. G ! nat m) (f k)"
    using moves before by simp
  have here: "G' ! nat k = mex_loop (fset_of_list (map (\<lambda>m. G' ! nat m) (f k))) 0"
    unfolding same at_k g_def ..
  have "\<forall>n. k \<le> n \<and> n < N \<longrightarrow>
          G' ! nat n = mex_loop (fset_of_list (map (\<lambda>m. G' ! nat m) (f n))) 0"
  proof (intro allI impI)
    fix n assume n: "k \<le> n \<and> n < N"
    show "G' ! nat n = mex_loop (fset_of_list (map (\<lambda>m. G' ! nat m) (f n))) 0"
    proof (cases "n = k")
      case True
      with here show ?thesis by simp
    next
      case False
      with n later show ?thesis by simp
    qed
  qed
  with res len before show ?case by simp
qed

text \<open>
  The oracles of main.py return Python sets, whose iteration order is not fixed.  The
  builder does not depend on it: two oracles that report the same positions, in any
  order and with any repetition, give the same result.
\<close>

lemma collect_reachable_char:
  "collect_reachable G ps acc =
     (if \<forall>m\<in>set ps. valid_index G m
      then Inr (acc |\<union>| (\<lambda>m. projr (py_getitem G m)) |`| fset_of_list ps)
      else Inl IndexError)"
proof (induction ps arbitrary: acc)
  case Nil
  then show ?case by simp
next
  case (Cons m ps)
  show ?case
  proof (cases "valid_index G m")
    case True
    then obtain v where "py_getitem G m = Inr v"
      using py_getitem_valid by blast
    with Cons True show ?thesis by auto
  next
    case False
    then show ?thesis by (simp add: py_getitem_invalid)
  qed
qed

lemma collect_reachable_set:
  assumes "set ps = set qs"
  shows "collect_reachable G ps acc = collect_reachable G qs acc"
proof -
  from assms have "fset_of_list ps = fset_of_list qs"
    by (simp add: fset_of_list.rep_eq fset_inject [symmetric])
  with assms show ?thesis
    by (simp add: collect_reachable_char)
qed

lemma grundy_loop_set:
  "\<forall>n\<in>set ns. set (f n) = set (g n) \<Longrightarrow> grundy_loop f ns G = grundy_loop g ns G"
proof (induction ns arbitrary: G)
  case Nil
  then show ?case by simp
next
  case (Cons n ns)
  then have "collect_reachable G (f n) {||} = collect_reachable G (g n) {||}"
    by (intro collect_reachable_set) simp
  with Cons show ?case
    by (simp split: sum.splits)
qed

lemma compute_grundy_values_set:
  "\<forall>n. set (f n) = set (g n) \<Longrightarrow> compute_grundy_values f max_n = compute_grundy_values g max_n"
  unfolding compute_grundy_values_def by (rule grundy_loop_set) simp

lemma sg_collect_reachable_eq:
  "sg_collect_reachable G n moves acc
     = collect_reachable G (get_subtraction_game_function moves n) acc"
  by (induction moves arbitrary: acc)
    (auto simp: get_subtraction_game_function_def split: sum.splits)

lemma sg_grundy_loop_eq:
  "sg_grundy_loop moves ns G = grundy_loop (get_subtraction_game_function moves) ns G"
  by (induction ns arbitrary: G) (auto simp: sg_collect_reachable_eq split: sum.splits)

lemma sg_compute_grundy_values_eq:
  "sg_compute_grundy_values moves max_n
     = compute_grundy_values (get_subtraction_game_function moves) max_n"
  by (simp add: sg_compute_grundy_values_def compute_grundy_values_def sg_grundy_loop_eq)

lemma set_get_subtraction_game_function:
  "set (get_subtraction_game_function S x) = {x - s | s. s \<in> set S \<and> s \<le> x}"
  by (auto simp: get_subtraction_game_function_def)

lemma mex_loop_fset_of_list:
  fixes G :: "int list" and ps :: "int list"
  defines "v \<equiv> mex_loop (fset_of_list (map (\<lambda>m. G ! nat m) ps)) 0"
  shows "0 \<le> v" and "\<forall>m\<in>set ps. G ! nat m \<noteq> v"
    and "\<forall>u. 0 \<le> u \<and> u < v \<longrightarrow> (\<exists>m\<in>set ps. G ! nat m = u)"
proof -
  let ?S = "fset_of_list (map (\<lambda>m. G ! nat m) ps)"
  show "0 \<le> v" unfolding v_def by (rule mex_loop_ge)
  have "v |\<notin>| ?S" unfolding v_def by (rule mex_loop_notin)
  then show "\<forall>m\<in>set ps. G ! nat m \<noteq> v"
    by (auto simp: fset_of_list_elem)
  show "\<forall>u. 0 \<le> u \<and> u < v \<longrightarrow> (\<exists>m\<in>set ps. G ! nat m = u)"
  proof (intro allI impI)
    fix u assume "0 \<le> u \<and> u < v"
    then have "u |\<in>| ?S" unfolding v_def using mex_loop_below by blast
    then show "\<exists>m\<in>set ps. G ! nat m = u"
      by (auto simp: fset_of_list_elem)
  qed
qed

lemma compute_grundy_values_mex_loop:
  assumes "0 \<le> max_n"
    and "\<forall>n m. 1 \<le> n \<and> n \<le> max_n \<and> m \<in> set (f n) \<longrightarrow> 0 \<le> m \<and> m < n"
  shows "\<exists>G. compute_grundy_values f max_n = Inr G \<and> length G = nat (max_n + 1)
           \<and> (\<forall>n. 1 \<le> n \<and> n \<le> max_n \<longrightarrow>
                 G ! nat n = mex_loop (fset_of_list (map (\<lambda>m. G ! nat m) (f n))) 0)"
proof -
  let ?G0 = "replicate (nat (max_n + 1)) (0::int)"
  have len: "py_len ?G0 = max_n + 1"
    using assms(1) by (simp add: py_len_def)
  have valid: "\<forall>n. 1 \<le> n \<and> n < max_n + 1 \<longrightarrow> (\<forall>m\<in>set (f n). 0 \<le> m \<and> m < n)"
  proof (intro allI impI ballI)
    fix n m assume "1 \<le> n \<and> n < max_n + 1" and "m \<in> set (f n)"
    then have "1 \<le> n \<and> n \<le> max_n \<and> m \<in> set (f n)" by simp
    with assms(2) show "0 \<le> m \<and> m < n" by blast
  qed
  from grundy_loop_mex [OF refl _ len valid]
  obtain G' where "grundy_loop f (py_range 1 (max_n + 1)) ?G0 = Inr G'"
    and "length G' = length ?G0"
    and "\<forall>n. 1 \<le> n \<and> n < max_n + 1 \<longrightarrow>
           G' ! nat n = mex_loop (fset_of_list (map (\<lambda>m. G' ! nat m) (f n))) 0"
    by auto
  then show ?thesis
    by (simp add: compute_grundy_values_def)
qed


lemma compute_grundy_values_mex_rule:
  assumes "0 \<le> max_n"
    and "\<forall>n m. 1 \<le> n \<and> n \<le> max_n \<and> m \<in> set (game_function n) \<longrightarrow> 0 \<le> m \<and> m < n"
  shows "\<exists>G. compute_grundy_values game_function max_n = Inr G
           \<and> length G = nat (max_n + 1)
           \<and> (\<forall>n. 1 \<le> n \<and> n \<le> max_n \<longrightarrow>
                0 \<le> G ! nat n
                \<and> (\<forall>m\<in>set (game_function n). G ! nat m \<noteq> G ! nat n)
                \<and> (\<forall>v. 0 \<le> v \<and> v < G ! nat n \<longrightarrow>
                      (\<exists>m\<in>set (game_function n). G ! nat m = v)))"
proof -
  from compute_grundy_values_mex_loop [OF assms]
  obtain G where run: "compute_grundy_values game_function max_n = Inr G"
    and len: "length G = nat (max_n + 1)"
    and mex: "\<forall>n. 1 \<le> n \<and> n \<le> max_n \<longrightarrow>
       G ! nat n = mex_loop (fset_of_list (map (\<lambda>m. G ! nat m) (game_function n))) 0"
    by blast
  have "\<forall>n. 1 \<le> n \<and> n \<le> max_n \<longrightarrow>
                0 \<le> G ! nat n
                \<and> (\<forall>m\<in>set (game_function n). G ! nat m \<noteq> G ! nat n)
                \<and> (\<forall>v. 0 \<le> v \<and> v < G ! nat n \<longrightarrow>
                      (\<exists>m\<in>set (game_function n). G ! nat m = v))"
  proof (intro allI impI)
    fix n assume "1 \<le> n \<and> n \<le> max_n"
    with mex have eq: "G ! nat n = mex_loop (fset_of_list (map (\<lambda>m. G ! nat m) (game_function n))) 0"
      by blast
    show "0 \<le> G ! nat n
                \<and> (\<forall>m\<in>set (game_function n). G ! nat m \<noteq> G ! nat n)
                \<and> (\<forall>v. 0 \<le> v \<and> v < G ! nat n \<longrightarrow>
                      (\<exists>m\<in>set (game_function n). G ! nat m = v))"
      unfolding eq by (intro conjI mex_loop_fset_of_list)
  qed
  with run len show ?thesis by blast
qed


lemma sg_compute_grundy_values_mex_rule:
  assumes "0 \<le> max_n" and "\<forall>s\<in>set moves. 1 \<le> s"
  shows "\<exists>G. sg_compute_grundy_values moves max_n = Inr G
           \<and> length G = nat (max_n + 1)
           \<and> (\<forall>n. 1 \<le> n \<and> n \<le> max_n \<longrightarrow>
                0 \<le> G ! nat n
                \<and> (\<forall>s\<in>set moves. s \<le> n \<longrightarrow> G ! nat (n - s) \<noteq> G ! nat n)
                \<and> (\<forall>v. 0 \<le> v \<and> v < G ! nat n \<longrightarrow>
                      (\<exists>s\<in>set moves. s \<le> n \<and> G ! nat (n - s) = v)))"
proof -
  let ?f = "get_subtraction_game_function moves"
  have "\<forall>n m. 1 \<le> n \<and> n \<le> max_n \<and> m \<in> set (?f n) \<longrightarrow> 0 \<le> m \<and> m < n"
    using assms(2) by (fastforce simp: set_get_subtraction_game_function)
  from compute_grundy_values_mex_rule [OF assms(1) this]
  obtain G where run: "compute_grundy_values ?f max_n = Inr G"
    and len: "length G = nat (max_n + 1)"
    and mex: "\<forall>n. 1 \<le> n \<and> n \<le> max_n \<longrightarrow>
                0 \<le> G ! nat n
                \<and> (\<forall>m\<in>set (?f n). G ! nat m \<noteq> G ! nat n)
                \<and> (\<forall>v. 0 \<le> v \<and> v < G ! nat n \<longrightarrow> (\<exists>m\<in>set (?f n). G ! nat m = v))"
    by blast
  have "\<forall>n. 1 \<le> n \<and> n \<le> max_n \<longrightarrow>
                0 \<le> G ! nat n
                \<and> (\<forall>s\<in>set moves. s \<le> n \<longrightarrow> G ! nat (n - s) \<noteq> G ! nat n)
                \<and> (\<forall>v. 0 \<le> v \<and> v < G ! nat n \<longrightarrow>
                      (\<exists>s\<in>set moves. s \<le> n \<and> G ! nat (n - s) = v))"
  proof (intro allI impI)
    fix n assume "1 \<le> n \<and> n \<le> max_n"
    with mex have A: "0 \<le> G ! nat n"
      and B: "\<forall>m\<in>set (?f n). G ! nat m \<noteq> G ! nat n"
      and C: "\<forall>v. 0 \<le> v \<and> v < G ! nat n \<longrightarrow> (\<exists>m\<in>set (?f n). G ! nat m = v)"
      by blast+
    from B have B': "\<forall>s\<in>set moves. s \<le> n \<longrightarrow> G ! nat (n - s) \<noteq> G ! nat n"
      unfolding set_get_subtraction_game_function by blast
    from C have C': "\<forall>v. 0 \<le> v \<and> v < G ! nat n \<longrightarrow>
                      (\<exists>s\<in>set moves. s \<le> n \<and> G ! nat (n - s) = v)"
      unfolding set_get_subtraction_game_function by blast
    from A B' C' show "0 \<le> G ! nat n
                \<and> (\<forall>s\<in>set moves. s \<le> n \<longrightarrow> G ! nat (n - s) \<noteq> G ! nat n)
                \<and> (\<forall>v. 0 \<le> v \<and> v < G ! nat n \<longrightarrow>
                      (\<exists>s\<in>set moves. s \<le> n \<and> G ! nat (n - s) = v))"
      by blast
  qed
  with run len show ?thesis
    unfolding sg_compute_grundy_values_eq by blast
qed


text \<open>
  Claim C1.  For \<open>max_n \<ge> 0\<close> and an oracle that, at every position \<open>n\<close> in
  \<open>[1, max_n]\<close>, reports only positions \<open>m\<close> with \<open>0 \<le> m < n\<close>, the builder of
  utils.py returns a sequence \<open>G\<close> of length \<open>max_n + 1\<close> in which, for every such
  \<open>n\<close>, \<open>G(n)\<close> is the least non-negative integer different from \<open>G(m)\<close> for every
  reported \<open>m\<close>: it is non-negative, it differs from each \<open>G(m)\<close>, and every smaller
  non-negative integer is some \<open>G(m)\<close>.  The builder of subtraction-game.py does the
  same for the positions \<open>n - s\<close> with \<open>s\<close> a move and \<open>s \<le> n\<close>, when every move is at
  least 1.
\<close>

theorem compute_grundy_values_mex:
  assumes "0 \<le> max_n"
  shows "((\<forall>n m. 1 \<le> n \<and> n \<le> max_n \<and> m \<in> set (game_function n) \<longrightarrow> 0 \<le> m \<and> m < n) \<longrightarrow>
          (\<exists>G. compute_grundy_values game_function max_n = Inr G
             \<and> length G = nat (max_n + 1)
             \<and> (\<forall>n. 1 \<le> n \<and> n \<le> max_n \<longrightarrow>
                  0 \<le> G ! nat n
                  \<and> (\<forall>m\<in>set (game_function n). G ! nat m \<noteq> G ! nat n)
                  \<and> (\<forall>v. 0 \<le> v \<and> v < G ! nat n \<longrightarrow>
                        (\<exists>m\<in>set (game_function n). G ! nat m = v)))))
       \<and> ((\<forall>s\<in>set moves. 1 \<le> s) \<longrightarrow>
          (\<exists>G. sg_compute_grundy_values moves max_n = Inr G
             \<and> length G = nat (max_n + 1)
             \<and> (\<forall>n. 1 \<le> n \<and> n \<le> max_n \<longrightarrow>
                  0 \<le> G ! nat n
                  \<and> (\<forall>s\<in>set moves. s \<le> n \<longrightarrow> G ! nat (n - s) \<noteq> G ! nat n)
                  \<and> (\<forall>v. 0 \<le> v \<and> v < G ! nat n \<longrightarrow>
                        (\<exists>s\<in>set moves. s \<le> n \<and> G ! nat (n - s) = v)))))"
proof (intro conjI impI)
  assume "\<forall>n m. 1 \<le> n \<and> n \<le> max_n \<and> m \<in> set (game_function n) \<longrightarrow> 0 \<le> m \<and> m < n"
  with assms show "\<exists>G. compute_grundy_values game_function max_n = Inr G
             \<and> length G = nat (max_n + 1)
             \<and> (\<forall>n. 1 \<le> n \<and> n \<le> max_n \<longrightarrow>
                  0 \<le> G ! nat n
                  \<and> (\<forall>m\<in>set (game_function n). G ! nat m \<noteq> G ! nat n)
                  \<and> (\<forall>v. 0 \<le> v \<and> v < G ! nat n \<longrightarrow>
                        (\<exists>m\<in>set (game_function n). G ! nat m = v)))"
    by (rule compute_grundy_values_mex_rule)
next
  assume "\<forall>s\<in>set moves. 1 \<le> s"
  with assms show "\<exists>G. sg_compute_grundy_values moves max_n = Inr G
             \<and> length G = nat (max_n + 1)
             \<and> (\<forall>n. 1 \<le> n \<and> n \<le> max_n \<longrightarrow>
                  0 \<le> G ! nat n
                  \<and> (\<forall>s\<in>set moves. s \<le> n \<longrightarrow> G ! nat (n - s) \<noteq> G ! nat n)
                  \<and> (\<forall>v. 0 \<le> v \<and> v < G ! nat n \<longrightarrow>
                        (\<exists>s\<in>set moves. s \<le> n \<and> G ! nat (n - s) = v)))"
    by (rule sg_compute_grundy_values_mex_rule)
qed


theorem compute_grundy_values_mex_witness:
  "(0::int) \<le> 10
   \<and> compute_grundy_values (get_subtraction_game_function [1, 2]) 10
       = Inr [0, 1, 2, 0, 1, 2, 0, 1, 2, 0, 1]
   \<and> (\<exists>G. compute_grundy_values (get_subtraction_game_function [1, 2]) 10 = Inr G
         \<and> 0 \<le> G ! nat 5
         \<and> (\<forall>m\<in>set (get_subtraction_game_function [1, 2] 5). G ! nat m \<noteq> G ! nat 5))
   \<and> sg_compute_grundy_values [1, 2] 10 = Inr [0, 1, 2, 0, 1, 2, 0, 1, 2, 0, 1]
   \<and> (\<exists>G. sg_compute_grundy_values [1, 2] 10 = Inr G \<and> G ! nat (5 - 1) \<noteq> G ! nat 5)"
proof -
  let ?f = "get_subtraction_game_function [1, 2]"
  have run: "compute_grundy_values ?f 10 = Inr [0, 1, 2, 0, 1, 2, 0, 1, 2, 0, 1]"
    and sg_run: "sg_compute_grundy_values [1, 2] 10 = Inr [0, 1, 2, 0, 1, 2, 0, 1, 2, 0, 1]"
    by code_simp+
  have bound: "(0::int) \<le> 10" by simp
  have valid: "\<forall>n m. 1 \<le> n \<and> n \<le> 10 \<and> m \<in> set (?f n) \<longrightarrow> 0 \<le> m \<and> m < n"
    by (auto simp: get_subtraction_game_function_def)
  have moves: "\<forall>s\<in>set [1, 2 :: int]. 1 \<le> s"
    by simp
  note T = compute_grundy_values_mex [OF bound, of ?f "[1, 2]"]
  from T valid
  obtain G where G: "compute_grundy_values ?f 10 = Inr G"
    and mex: "\<forall>n. 1 \<le> n \<and> n \<le> 10 \<longrightarrow>
                  0 \<le> G ! nat n
                  \<and> (\<forall>m\<in>set (?f n). G ! nat m \<noteq> G ! nat n)
                  \<and> (\<forall>v. 0 \<le> v \<and> v < G ! nat n \<longrightarrow> (\<exists>m\<in>set (?f n). G ! nat m = v))"
    by blast
  have "(1::int) \<le> 5 \<and> (5::int) \<le> 10" by simp
  with mex have "0 \<le> G ! nat 5 \<and> (\<forall>m\<in>set (?f 5). G ! nat m \<noteq> G ! nat 5)"
    by blast
  with G have one: "\<exists>G. compute_grundy_values ?f 10 = Inr G
         \<and> 0 \<le> G ! nat 5 \<and> (\<forall>m\<in>set (?f 5). G ! nat m \<noteq> G ! nat 5)"
    by blast
  from T moves
  obtain H where H: "sg_compute_grundy_values [1, 2] 10 = Inr H"
    and sg_mex: "\<forall>n. 1 \<le> n \<and> n \<le> 10 \<longrightarrow>
                  0 \<le> H ! nat n
                  \<and> (\<forall>s\<in>set [1, 2]. s \<le> n \<longrightarrow> H ! nat (n - s) \<noteq> H ! nat n)
                  \<and> (\<forall>v. 0 \<le> v \<and> v < H ! nat n \<longrightarrow>
                        (\<exists>s\<in>set [1, 2]. s \<le> n \<and> H ! nat (n - s) = v))"
    by blast
  have "(1::int) \<le> 5 \<and> (5::int) \<le> 10" by simp
  with sg_mex
  have "\<forall>s\<in>set [1, 2 :: int]. s \<le> 5 \<longrightarrow> H ! nat (5 - s) \<noteq> H ! nat 5"
    by blast
  then have "H ! nat (5 - 1) \<noteq> H ! nat 5"
    by simp
  with H have two: "\<exists>G. sg_compute_grundy_values [1, 2] 10 = Inr G \<and> G ! nat (5 - 1) \<noteq> G ! nat 5"
    by blast
  from bound run one sg_run two show ?thesis
    by (intro conjI)
qed


section \<open>Shape of the built sequence\<close>

lemma compute_grundy_values_returns:
  assumes "0 \<le> max_n"
    and "\<forall>n m. 1 \<le> n \<and> n \<le> max_n \<and> m \<in> set (f n) \<longrightarrow> - (max_n + 1) \<le> m \<and> m \<le> max_n"
  shows "\<exists>G. compute_grundy_values f max_n = Inr G \<and> length G = nat (max_n + 1) \<and> G ! 0 = 0"
proof -
  let ?G0 = "replicate (nat (max_n + 1)) (0::int)"
  have len: "py_len ?G0 = max_n + 1"
    using assms(1) by (simp add: py_len_def)
  have ns: "\<forall>n\<in>set (py_range 1 (max_n + 1)). 1 \<le> n \<and> n < py_len ?G0"
    unfolding len by (simp add: set_py_range)
  have "\<forall>n\<in>set (py_range 1 (max_n + 1)). \<forall>m\<in>set (f n). valid_index ?G0 m"
    unfolding valid_index_def len using assms(2) by (auto simp: set_py_range)
  from grundy_loop_shape [OF ns this]
  obtain G' where "grundy_loop f (py_range 1 (max_n + 1)) ?G0 = Inr G'"
    and "length G' = length ?G0" and "G' ! 0 = ?G0 ! 0"
    by blast
  with assms(1) show ?thesis
    by (simp add: compute_grundy_values_def)
qed

lemma compute_grundy_values_raises:
  assumes "0 \<le> max_n"
    and "\<not> (\<forall>n m. 1 \<le> n \<and> n \<le> max_n \<and> m \<in> set (f n) \<longrightarrow> - (max_n + 1) \<le> m \<and> m \<le> max_n)"
  shows "compute_grundy_values f max_n = Inl IndexError"
proof -
  let ?G0 = "replicate (nat (max_n + 1)) (0::int)"
  have len: "py_len ?G0 = max_n + 1"
    using assms(1) by (simp add: py_len_def)
  have ns: "\<forall>n\<in>set (py_range 1 (max_n + 1)). 1 \<le> n \<and> n < py_len ?G0"
    unfolding len by (simp add: set_py_range)
  from assms(2) obtain n m where "1 \<le> n" "n \<le> max_n" "m \<in> set (f n)"
    and "\<not> (- (max_n + 1) \<le> m \<and> m \<le> max_n)"
    by blast
  then have "n \<in> set (py_range 1 (max_n + 1))" and "m \<in> set (f n)" and "\<not> valid_index ?G0 m"
    unfolding valid_index_def len by (auto simp: set_py_range)
  then have "\<exists>n\<in>set (py_range 1 (max_n + 1)). \<exists>m\<in>set (f n). \<not> valid_index ?G0 m"
    by blast
  from grundy_loop_raises [OF ns this] show ?thesis
    by (simp add: compute_grundy_values_def)
qed


text \<open>
  Claim C7 says that the builder returns a sequence of length \<open>max_n + 1\<close> starting
  with 0 for every oracle.  The builder reads \<open>grundy[next_pos]\<close> unguarded, so an
  oracle that reports a position outside the sequence makes it raise \<open>IndexError\<close>:
  the subtraction oracle of main.py with the move \<open>-5\<close> reports position 6 from
  position 1.
\<close>

theorem compute_grundy_values_shape_counterexample:
  "compute_grundy_values (get_subtraction_game_function [- 5]) 1 = Inl IndexError"
  by code_simp

text \<open>
  Claim C7, as amended: for \<open>max_n \<ge> 0\<close> and an oracle that at every position in
  \<open>[1, max_n]\<close> reports only valid indices of the sequence (from \<open>-(max_n + 1)\<close> to
  \<open>max_n\<close>), the builder returns a sequence of length \<open>max_n + 1\<close> whose element at
  index 0 is 0; for every other oracle it raises \<open>IndexError\<close>.
\<close>

theorem compute_grundy_values_shape:
  assumes "0 \<le> max_n"
  shows "((\<forall>n m. 1 \<le> n \<and> n \<le> max_n \<and> m \<in> set (game_function n) \<longrightarrow>
              - (max_n + 1) \<le> m \<and> m \<le> max_n) \<longrightarrow>
           (\<exists>G. compute_grundy_values game_function max_n = Inr G
                 \<and> length G = nat (max_n + 1) \<and> G ! 0 = 0))
         \<and> (\<not> (\<forall>n m. 1 \<le> n \<and> n \<le> max_n \<and> m \<in> set (game_function n) \<longrightarrow>
              - (max_n + 1) \<le> m \<and> m \<le> max_n) \<longrightarrow>
            compute_grundy_values game_function max_n = Inl IndexError)"
  using compute_grundy_values_returns [OF assms, of game_function]
    compute_grundy_values_raises [OF assms, of game_function]
  by blast

theorem compute_grundy_values_shape_witness:
  "(0::int) \<le> 6
   \<and> (\<exists>G. compute_grundy_values (get_allbut_game_function [2, 3]) 6 = Inr G
         \<and> length G = nat (6 + 1) \<and> G ! 0 = 0)
   \<and> compute_grundy_values (get_allbut_game_function [2, 3]) 6 = Inr [0, 1, 0, 0, 2, 3, 4]
   \<and> (0::int) \<le> 1
   \<and> compute_grundy_values (get_subtraction_game_function [- 5]) 1 = Inl IndexError"
proof -
  let ?f = "get_allbut_game_function [2, 3]"
  let ?g = "get_subtraction_game_function [- 5]"
  have b6: "(0::int) \<le> 6" and b1: "(0::int) \<le> 1" by simp_all
  have run: "compute_grundy_values ?f 6 = Inr [0, 1, 0, 0, 2, 3, 4]"
    by code_simp
  have valid: "\<forall>n m. 1 \<le> n \<and> n \<le> 6 \<and> m \<in> set (?f n) \<longrightarrow> - (6 + 1) \<le> m \<and> m \<le> 6"
    by (auto simp: get_allbut_game_function_def set_py_range)
  with compute_grundy_values_shape [OF b6, of ?f]
  have one: "\<exists>G. compute_grundy_values ?f 6 = Inr G \<and> length G = nat (6 + 1) \<and> G ! 0 = 0"
    by blast
  have "6 \<in> set (?g 1)"
    by (simp add: get_subtraction_game_function_def)
  then have "\<not> (\<forall>n m. 1 \<le> n \<and> n \<le> 1 \<and> m \<in> set (?g n) \<longrightarrow> - (1 + 1) \<le> m \<and> m \<le> 1)"
    by force
  with compute_grundy_values_shape [OF b1, of ?g]
  have two: "compute_grundy_values ?g 1 = Inl IndexError"
    by blast
  from b6 one run b1 two show ?thesis
    by (intro conjI)
qed


end
